theory Spec2Isabelle
  imports Complex_Main "HOL-Library.Char_ord" "HOL-Library.List_Lexorder"
    "HOL-Library.Product_Lexorder" "HOL-Library.Multiset" "HOL-Library.Word"
begin

section \<open>Data model\<close>

text \<open>
  Python objects are shared by reference: the customer an event carries is the very
  object that sits in a line's queue and later in its served list. The model keeps all
  customers in one heap (a list, indexed by reference) and lets queues, served lists and
  events hold references into it. Lines are referred to by their position in
  \<open>store.lines\<close>; the \<open>id\<close> field of a line is kept as the separate attribute it is.
\<close>

datatype error =
    UnknownLineType string       \<comment> \<open>ValueError of the duration model\<close>
  | NotImplemented               \<comment> \<open>NotImplementedError\<close>
  | NoApplicableLine             \<comment> \<open>assertion of the selection policies\<close>
  | EmptyLine int                \<comment> \<open>assertion of serve_next_customer, with the line id\<close>
  | ClosedLine int               \<comment> \<open>assertion of queue_new_customer, with the line id\<close>
  | QueueGetBlocks               \<comment> \<open>Queue.get() on an empty queue never returns\<close>
  | IndexError                   \<comment> \<open>list index out of range\<close>
  | KeyError string              \<comment> \<open>missing dictionary key\<close>
  | TypeError                    \<comment> \<open>arithmetic or comparison on None\<close>
  | ParseError nat               \<comment> \<open>ValueError of create_event_list, with the line index\<close>
  | SimulatorFinished            \<comment> \<open>assertion of Simulator.run\<close>
  | SimulatorNotFinished         \<comment> \<open>assertion of Simulator.query_statistics\<close>
  | UnknownFilterBy string       \<comment> \<open>ValueError of query_statistics\<close>
  | UnknownCriterion string      \<comment> \<open>ValueError of query_statistics\<close>
  | EmptyReduction               \<comment> \<open>numpy: min or max of a zero-size array\<close>
  | ArrayNotInt64                \<comment> \<open>numpy: a value outside int64, the array is of another type\<close>
  | DanglingReference            \<comment> \<open>a reference outside the heap; no Python state has one\<close>

record customer =
  cid :: int
  num_items :: int
  join_timestamp :: "int option"
  begin_timestamp :: "int option"
  finish_timestamp :: "int option"

definition Customer :: "int \<Rightarrow> int \<Rightarrow> customer" where
  "Customer i n = \<lparr>cid = i, num_items = n, join_timestamp = None,
     begin_timestamp = None, finish_timestamp = None\<rparr>"

record checkout_line =
  lid :: int
  ltype :: string
  queue :: "nat list"      \<comment> \<open>references of the waiting customers, head first\<close>
  served :: "nat list"     \<comment> \<open>references of the served customers, oldest first\<close>
  closed :: bool

definition CheckoutLine :: "int \<Rightarrow> string \<Rightarrow> checkout_line" where
  "CheckoutLine i t = \<lparr>lid = i, ltype = t, queue = [], served = [], closed = False\<rparr>"

record grocery_store =
  lines :: "checkout_line list"
  last_line_id :: int
  total_lines :: int

definition deref :: "'a list \<Rightarrow> nat \<Rightarrow> error + 'a" where
  "deref xs i = (if i < length xs then Inr (xs ! i) else Inl DanglingReference)"

section \<open>Checkout duration model\<close>

definition checkout_w :: "(string \<times> int) list" where
  "checkout_w = [(''cashier'', 1), (''express'', 1), (''self'', 2)]"

definition checkout_b :: "(string \<times> int) list" where
  "checkout_b = [(''cashier'', 7), (''express'', 4), (''self'', 1)]"

definition dict_get :: "(string \<times> int) list \<Rightarrow> string \<Rightarrow> error + int" where
  "dict_get d k = (case map_of d k of None \<Rightarrow> Inl (KeyError k) | Some v \<Rightarrow> Inr v)"

definition get_checkout_time_deterministic :: "customer \<Rightarrow> checkout_line \<Rightarrow> error + int" where
  "get_checkout_time_deterministic c l =
     (if ltype l \<in> set [''cashier'', ''express'', ''self''] then
        (case dict_get checkout_w (ltype l) of
           Inl e \<Rightarrow> Inl e
         | Inr w \<Rightarrow>
            (case dict_get checkout_b (ltype l) of
               Inl e \<Rightarrow> Inl e
             | Inr b \<Rightarrow> Inr (num_items c * w + b)))
      else Inl (UnknownLineType (ltype l)))"

definition get_checkout_time_stochastic :: "customer \<Rightarrow> checkout_line \<Rightarrow> error + int" where
  "get_checkout_time_stochastic c l = Inl NotImplemented"

section \<open>Checkout line\<close>

definition get_num_customers :: "checkout_line \<Rightarrow> int" where
  "get_num_customers l = int (length (queue l))"

definition is_empty :: "checkout_line \<Rightarrow> bool" where
  "is_empty l = (get_num_customers l = 0)"

definition serve_next_customer :: "checkout_line \<Rightarrow> error + nat" where
  "serve_next_customer l =
     (if is_empty l then Inl (EmptyLine (lid l)) else Inr (queue l ! 0))"

definition queue_new_customer :: "checkout_line \<Rightarrow> nat \<Rightarrow> error + checkout_line" where
  "queue_new_customer l c =
     (if closed l then Inl (ClosedLine (lid l)) else Inr (l\<lparr>queue := queue l @ [c]\<rparr>))"

text \<open>\<open>get_num_items\<close> reads \<open>num_items\<close> of every waiting customer through the heap.\<close>

fun sum_items :: "customer list \<Rightarrow> int \<Rightarrow> nat list \<Rightarrow> error + int" where
  "sum_items h accum [] = Inr accum"
| "sum_items h accum (c # cs) =
     (case deref h c of
        Inl e \<Rightarrow> Inl e
      | Inr cu \<Rightarrow> sum_items h (accum + num_items cu) cs)"

definition get_num_items :: "customer list \<Rightarrow> checkout_line \<Rightarrow> error + int" where
  "get_num_items h l = sum_items h 0 (queue l)"

text \<open>
  \<open>get_queue_time\<close> calls the installed duration model \<open>Utility.get_checkout_time\<close>,
  here the parameter \<open>gct\<close>, on the waiting customers from \<open>start_idx\<close> on.
\<close>

fun sum_times :: "(customer \<Rightarrow> checkout_line \<Rightarrow> error + int) \<Rightarrow> customer list \<Rightarrow>
    checkout_line \<Rightarrow> int \<Rightarrow> nat list \<Rightarrow> error + int" where
  "sum_times gct h l wait_time [] = Inr wait_time"
| "sum_times gct h l wait_time (c # cs) =
     (case deref h c of
        Inl e \<Rightarrow> Inl e
      | Inr cu \<Rightarrow>
         (case gct cu l of
            Inl e \<Rightarrow> Inl e
          | Inr t \<Rightarrow> sum_times gct h l (wait_time + t) cs))"

definition get_queue_time :: "(customer \<Rightarrow> checkout_line \<Rightarrow> error + int) \<Rightarrow> customer list \<Rightarrow>
    checkout_line \<Rightarrow> bool \<Rightarrow> error + int" where
  "get_queue_time gct h l count_first =
     (if length (queue l) = 0 then Inr 0
      else sum_times gct h l 0 (drop (if count_first then 0 else 1) (queue l)))"

definition close_line :: "checkout_line \<Rightarrow> checkout_line" where
  "close_line l = l\<lparr>closed := True\<rparr>"

definition open_line :: "checkout_line \<Rightarrow> checkout_line" where
  "open_line l = l\<lparr>closed := False\<rparr>"

section \<open>Grocery store\<close>

text \<open>
  The constructor walks \<open>sorted(line_counts.items())\<close>; the dictionary is given as the
  list of its items, and \<open>range(line_count)\<close> is empty for a count below one.
\<close>

fun add_lines :: "checkout_line list \<Rightarrow> int \<Rightarrow> string \<Rightarrow> nat \<Rightarrow> checkout_line list \<times> int" where
  "add_lines ls line_id t 0 = (ls, line_id)"
| "add_lines ls line_id t (Suc n) = add_lines (ls @ [CheckoutLine line_id t]) (line_id + 1) t n"

fun build_lines :: "checkout_line list \<Rightarrow> int \<Rightarrow> (string \<times> int) list \<Rightarrow> checkout_line list \<times> int" where
  "build_lines ls line_id [] = (ls, line_id)"
| "build_lines ls line_id ((line_type, line_count) # rest) =
     (case add_lines ls line_id line_type (nat line_count) of
        (ls', line_id') \<Rightarrow> build_lines ls' line_id' rest)"

definition GroceryStore :: "(string \<times> int) list \<Rightarrow> grocery_store" where
  "GroceryStore line_counts =
     (case build_lines [] 0 (sort line_counts) of
        (ls, line_id) \<Rightarrow> \<lparr>lines = ls, last_line_id = line_id - 1, total_lines = line_id\<rparr>)"

section \<open>Line-selection policies\<close>

text \<open>
  Every policy tests a line with the same condition, written out in each of them:
  \<open>not line.closed and (line.type != "express" or customer.num_items <= 10)\<close>.
\<close>

definition applicable :: "customer \<Rightarrow> checkout_line \<Rightarrow> bool" where
  "applicable c l = (\<not> closed l \<and> (ltype l \<noteq> ''express'' \<or> num_items c \<le> 10))"

text \<open>
  The least-person, least-item and least-time policies are the same loop over
  \<open>store.lines\<close> with a different quantity \<open>m\<close> compared: a line replaces
  \<open>best_line\<close> when it is applicable and \<open>best_line\<close> is still None or its quantity is
  strictly smaller. The quantity is computed (and may raise) only when a best line
  exists already. Lines are visited by position; \<open>best\<close> holds a position.
\<close>

fun least_loop :: "(checkout_line \<Rightarrow> error + int) \<Rightarrow> customer \<Rightarrow> checkout_line list \<Rightarrow>
    nat list \<Rightarrow> nat option \<Rightarrow> error + nat option" where
  "least_loop m c ls [] best = Inr best"
| "least_loop m c ls (i # is) best =
     (if applicable c (ls ! i) then
        (case best of
           None \<Rightarrow> least_loop m c ls is (Some i)
         | Some b \<Rightarrow>
            (case m (ls ! i) of
               Inl e \<Rightarrow> Inl e
             | Inr v \<Rightarrow>
                (case m (ls ! b) of
                   Inl e \<Rightarrow> Inl e
                 | Inr w \<Rightarrow>
                    if v < w then least_loop m c ls is (Some i)
                    else least_loop m c ls is best)))
      else least_loop m c ls is best)"

definition pick_least :: "(checkout_line \<Rightarrow> error + int) \<Rightarrow> customer \<Rightarrow> grocery_store \<Rightarrow>
    error + nat" where
  "pick_least m c s =
     (case least_loop m c (lines s) [0..<length (lines s)] None of
        Inl e \<Rightarrow> Inl e
      | Inr None \<Rightarrow> Inl NoApplicableLine
      | Inr (Some b) \<Rightarrow> Inr b)"

definition pick_checkout_line_least_person :: "customer \<Rightarrow> grocery_store \<Rightarrow> error + nat" where
  "pick_checkout_line_least_person c s = pick_least (\<lambda>l. Inr (get_num_customers l)) c s"

definition pick_checkout_line_least_item :: "customer list \<Rightarrow> customer \<Rightarrow> grocery_store \<Rightarrow>
    error + nat" where
  "pick_checkout_line_least_item h c s = pick_least (get_num_items h) c s"

definition pick_checkout_line_least_time :: "(customer \<Rightarrow> checkout_line \<Rightarrow> error + int) \<Rightarrow> bool \<Rightarrow>
    customer list \<Rightarrow> customer \<Rightarrow> grocery_store \<Rightarrow> error + nat" where
  "pick_checkout_line_least_time gct count_first h c s =
     pick_least (\<lambda>l. get_queue_time gct h l count_first) c s"

text \<open>
  \<open>np.random.randint(n)\<close> returns a number below \<open>n\<close>; \<open>r\<close> is the raw output of the
  generator it is computed from, so that every number below \<open>n\<close> can come out.
\<close>

definition randint :: "nat \<Rightarrow> nat \<Rightarrow> nat" where
  "randint r n = r mod n"

definition pick_checkout_line_pure_random :: "nat \<Rightarrow> customer \<Rightarrow> grocery_store \<Rightarrow> error + nat" where
  "pick_checkout_line_pure_random r c s =
     (let lines_avail = filter (\<lambda>i. applicable c (lines s ! i)) [0..<length (lines s)]
      in if length lines_avail = 0 then Inl NoApplicableLine
         else Inr (lines_avail ! randint r (length lines_avail)))"

text \<open>Python list indexing by an integer: a negative index counts from the end.\<close>

definition list_index :: "'a list \<Rightarrow> int \<Rightarrow> error + nat" where
  "list_index xs i =
     (let n = int (length xs); j = (if i < 0 then n + i else i)
      in if 0 \<le> j \<and> j < n then Inr (nat j) else Inl IndexError)"

fun rr_scan :: "customer \<Rightarrow> grocery_store \<Rightarrow> int list \<Rightarrow> error + nat option" where
  "rr_scan c s [] = Inr None"
| "rr_scan c s (offset # offsets) =
     (case list_index (lines s) ((last_line_id s + offset) mod total_lines s) of
        Inl e \<Rightarrow> Inl e
      | Inr k \<Rightarrow> if applicable c (lines s ! k) then Inr (Some k) else rr_scan c s offsets)"

definition pick_checkout_line_round_robin :: "customer \<Rightarrow> grocery_store \<Rightarrow>
    error + nat \<times> grocery_store" where
  "pick_checkout_line_round_robin c s =
     (case rr_scan c s [1..total_lines s] of
        Inl e \<Rightarrow> Inl e
      | Inr None \<Rightarrow> Inl NoApplicableLine
      | Inr (Some k) \<Rightarrow> Inr (k, s\<lparr>last_line_id := lid (lines s ! k)\<rparr>))"

section \<open>Events\<close>

text \<open>
  An event carries its timestamp, and references to its customer and its line where it
  has them. \<open>Utility\<close> holds the installed duration model, the installed selection
  policy and the \<open>count_first\<close> switch. The world an event acts on is the store, the
  customers and the state of \<open>np.random\<close>, given as the raw outputs it has yet to
  produce.
\<close>

datatype event =
    JoinCheckoutEvent int nat
  | BeginCheckoutEvent int nat nat
  | FinishCheckoutEvent int nat nat
  | LineOpenEvent int nat
  | LineCloseEvent int nat

fun timestamp :: "event \<Rightarrow> int" where
  "timestamp (JoinCheckoutEvent t c) = t"
| "timestamp (BeginCheckoutEvent t c l) = t"
| "timestamp (FinishCheckoutEvent t c l) = t"
| "timestamp (LineOpenEvent t l) = t"
| "timestamp (LineCloseEvent t l) = t"

datatype policy = PureRandom | LeastPerson | LeastItem | LeastTime | RoundRobin

record utility =
  get_checkout_time :: "customer \<Rightarrow> checkout_line \<Rightarrow> error + int"
  pick_checkout_line :: policy
  count_first :: bool

record world =
  store :: grocery_store
  customers :: "customer list"
  rng :: "nat \<Rightarrow> nat"

definition pick_line :: "utility \<Rightarrow> customer \<Rightarrow> world \<Rightarrow> error + nat \<times> world" where
  "pick_line u c w =
     (case pick_checkout_line u of
        PureRandom \<Rightarrow>
          (case pick_checkout_line_pure_random (rng w 0) c (store w) of
             Inl e \<Rightarrow> Inl e
           | Inr k \<Rightarrow> Inr (k, w\<lparr>rng := \<lambda>n. rng w (Suc n)\<rparr>))
      | LeastPerson \<Rightarrow>
          (case pick_checkout_line_least_person c (store w) of
             Inl e \<Rightarrow> Inl e
           | Inr k \<Rightarrow> Inr (k, w))
      | LeastItem \<Rightarrow>
          (case pick_checkout_line_least_item (customers w) c (store w) of
             Inl e \<Rightarrow> Inl e
           | Inr k \<Rightarrow> Inr (k, w))
      | LeastTime \<Rightarrow>
          (case pick_checkout_line_least_time (get_checkout_time u) (count_first u)
                  (customers w) c (store w) of
             Inl e \<Rightarrow> Inl e
           | Inr k \<Rightarrow> Inr (k, w))
      | RoundRobin \<Rightarrow>
          (case pick_checkout_line_round_robin c (store w) of
             Inl e \<Rightarrow> Inl e
           | Inr (k, s') \<Rightarrow> Inr (k, w\<lparr>store := s'\<rparr>)))"

definition set_line :: "world \<Rightarrow> nat \<Rightarrow> checkout_line \<Rightarrow> world" where
  "set_line w k l = w\<lparr>store := (store w)\<lparr>lines := (lines (store w))[k := l]\<rparr>\<rparr>"

definition join_do :: "utility \<Rightarrow> int \<Rightarrow> nat \<Rightarrow> world \<Rightarrow> error + event list \<times> world" where
  "join_do u t c w =
     (case deref (customers w) c of
        Inl e \<Rightarrow> Inl e
      | Inr cu \<Rightarrow>
         (let w1 = w\<lparr>customers := (customers w)[c := cu\<lparr>join_timestamp := Some t\<rparr>]\<rparr>
          in case pick_line u (customers w1 ! c) w1 of
               Inl e \<Rightarrow> Inl e
             | Inr (k, w2) \<Rightarrow>
                (let line = lines (store w2) ! k
                 in if is_empty line then
                      (case queue_new_customer line c of
                         Inl e \<Rightarrow> Inl e
                       | Inr line' \<Rightarrow> Inr ([BeginCheckoutEvent t c k], set_line w2 k line'))
                    else
                      (case queue_new_customer line c of
                         Inl e \<Rightarrow> Inl e
                       | Inr line' \<Rightarrow> Inr ([], set_line w2 k line')))))"

definition begin_do :: "utility \<Rightarrow> int \<Rightarrow> nat \<Rightarrow> nat \<Rightarrow> world \<Rightarrow> error + event list \<times> world" where
  "begin_do u t c l w =
     (case deref (customers w) c of
        Inl e \<Rightarrow> Inl e
      | Inr cu \<Rightarrow>
         (let w1 = w\<lparr>customers := (customers w)[c := cu\<lparr>begin_timestamp := Some t\<rparr>]\<rparr>
          in case deref (lines (store w1)) l of
               Inl e \<Rightarrow> Inl e
             | Inr line \<Rightarrow>
                (case get_checkout_time u (customers w1 ! c) line of
                   Inl e \<Rightarrow> Inl e
                 | Inr checkout_time \<Rightarrow>
                     Inr ([FinishCheckoutEvent (t + checkout_time) c l], w1))))"

text \<open>
  \<open>self.line.queue.get()\<close> removes the head of the queue, whoever it is; on an empty
  queue it waits for ever, which the model reports as \<open>QueueGetBlocks\<close>.
\<close>

definition finish_do :: "int \<Rightarrow> nat \<Rightarrow> nat \<Rightarrow> world \<Rightarrow> error + event list \<times> world" where
  "finish_do t c l w =
     (case deref (customers w) c of
        Inl e \<Rightarrow> Inl e
      | Inr cu \<Rightarrow>
         (let w1 = w\<lparr>customers := (customers w)[c := cu\<lparr>finish_timestamp := Some t\<rparr>]\<rparr>
          in case deref (lines (store w1)) l of
               Inl e \<Rightarrow> Inl e
             | Inr line \<Rightarrow>
                (case queue line of
                   [] \<Rightarrow> Inl QueueGetBlocks
                 | served_customer # rest \<Rightarrow>
                    (let line' = line\<lparr>queue := rest, served := served line @ [served_customer]\<rparr>;
                         w2 = set_line w1 l line'
                     in if \<not> is_empty line' then
                          (case serve_next_customer line' of
                             Inl e \<Rightarrow> Inl e
                           | Inr next_customer \<Rightarrow> Inr ([BeginCheckoutEvent t next_customer l], w2))
                        else Inr ([], w2)))))"

definition open_do :: "nat \<Rightarrow> world \<Rightarrow> error + event list \<times> world" where
  "open_do l w =
     (case deref (lines (store w)) l of
        Inl e \<Rightarrow> Inl e
      | Inr line \<Rightarrow> Inr ([], set_line w l (open_line line)))"

definition close_do :: "nat \<Rightarrow> world \<Rightarrow> error + event list \<times> world" where
  "close_do l w =
     (case deref (lines (store w)) l of
        Inl e \<Rightarrow> Inl e
      | Inr line \<Rightarrow> Inr ([], set_line w l (close_line line)))"

fun do_event :: "utility \<Rightarrow> event \<Rightarrow> world \<Rightarrow> error + event list \<times> world" where
  "do_event u (JoinCheckoutEvent t c) w = join_do u t c w"
| "do_event u (BeginCheckoutEvent t c l) w = begin_do u t c l w"
| "do_event u (FinishCheckoutEvent t c l) w = finish_do t c l w"
| "do_event u (LineOpenEvent t l) w = open_do l w"
| "do_event u (LineCloseEvent t l) w = close_do l w"

section \<open>The event queue\<close>

text \<open>
  \<open>PriorityQueue\<close> keeps its items in a list managed by \<open>heapq\<close>: \<open>put\<close> is
  \<open>heappush\<close> and \<open>get\<close> is \<open>heappop\<close>. The standard library's algorithms are
  followed step by step, since they decide which of two events with the same timestamp
  leaves first. Events compare by timestamp alone (\<open>Event.__lt__\<close>).
\<close>

definition event_lt :: "event \<Rightarrow> event \<Rightarrow> bool" where
  "event_lt a b = (timestamp a < timestamp b)"

function siftdown_loop :: "event list \<Rightarrow> nat \<Rightarrow> nat \<Rightarrow> event \<Rightarrow> event list" where
  "siftdown_loop heap startpos pos newitem =
     (if pos > startpos then
        (let parentpos = (pos - 1) div 2; parent = heap ! parentpos
         in if event_lt newitem parent
            then siftdown_loop (heap[pos := parent]) startpos parentpos newitem
            else heap[pos := newitem])
      else heap[pos := newitem])"
  by pat_completeness auto
termination
  by (relation "measure (\<lambda>(heap, startpos, pos, newitem). pos)") auto

definition siftdown :: "event list \<Rightarrow> nat \<Rightarrow> nat \<Rightarrow> event list" where
  "siftdown heap startpos pos = siftdown_loop heap startpos pos (heap ! pos)"

function siftup_loop :: "event list \<Rightarrow> nat \<Rightarrow> nat \<Rightarrow> event list \<times> nat" where
  "siftup_loop heap endpos pos =
     (let childpos = 2 * pos + 1
      in if childpos < endpos then
           (let rightpos = childpos + 1;
                childpos' = (if rightpos < endpos \<and> \<not> event_lt (heap ! childpos) (heap ! rightpos)
                             then rightpos else childpos)
            in siftup_loop (heap[pos := heap ! childpos']) endpos childpos')
         else (heap, pos))"
  by pat_completeness auto
termination
  by (relation "measure (\<lambda>(heap, endpos, pos). endpos - pos)") (auto simp: Let_def)

definition siftup :: "event list \<Rightarrow> nat \<Rightarrow> event list" where
  "siftup heap pos =
     (let newitem = heap ! pos
      in case siftup_loop heap (length heap) pos of
           (heap', pos') \<Rightarrow> siftdown (heap'[pos' := newitem]) pos pos')"

definition heappush :: "event list \<Rightarrow> event \<Rightarrow> event list" where
  "heappush heap item = siftdown (heap @ [item]) 0 (length heap)"

definition heappop :: "event list \<Rightarrow> error + event \<times> event list" where
  "heappop heap =
     (if heap = [] then Inl IndexError
      else (let lastelt = last heap; heap' = butlast heap
            in if heap' \<noteq> [] then Inr (heap' ! 0, siftup (heap'[0 := lastelt]) 0)
               else Inr (lastelt, heap')))"

section \<open>The engine's loop\<close>

text \<open>
  One turn of \<open>while not self.events.empty()\<close>: take the first event out, perform it,
  put the events it returns into the queue.
\<close>

definition step :: "utility \<Rightarrow> event list \<times> world \<Rightarrow> error + event list \<times> world" where
  "step u qw =
     (case heappop (fst qw) of
        Inl e \<Rightarrow> Inl e
      | Inr (ev, q1) \<Rightarrow>
         (case do_event u ev (snd qw) of
            Inl e \<Rightarrow> Inl e
          | Inr (future_events, w') \<Rightarrow> Inr (foldl heappush q1 future_events, w')))"

text \<open>
  \<open>steps n\<close> is the state after \<open>n\<close> turns of the loop, or after fewer when the queue
  has emptied before, or the error that stopped it. \<open>run_loop n\<close> is the loop with fuel
  \<open>n\<close>: \<open>None\<close> when the queue is not empty after \<open>n\<close> turns.
\<close>

fun steps :: "nat \<Rightarrow> utility \<Rightarrow> event list \<times> world \<Rightarrow> error + event list \<times> world" where
  "steps 0 u qw = Inr qw"
| "steps (Suc n) u qw =
     (if fst qw = [] then Inr qw
      else (case step u qw of
              Inl e \<Rightarrow> Inl e
            | Inr qw' \<Rightarrow> steps n u qw'))"

definition run_loop :: "nat \<Rightarrow> utility \<Rightarrow> event list \<times> world \<Rightarrow>
    (error + event list \<times> world) option" where
  "run_loop n u qw =
     (case steps n u qw of
        Inl e \<Rightarrow> Some (Inl e)
      | Inr qw' \<Rightarrow> if fst qw' = [] then Some (Inr qw') else None)"

section \<open>Reading the initial events\<close>

text \<open>
  The text is ASCII. \<open>str.strip\<close> removes the white space of both ends, \<open>str.split\<close>
  cuts at every separator, and \<open>int\<close> reads an optional sign and decimal digits, single
  underscores allowed between digits, with white space around.
\<close>

definition is_space :: "char \<Rightarrow> bool" where
  "is_space ch = (let n = (of_char ch :: nat) in (9 \<le> n \<and> n \<le> 13) \<or> (28 \<le> n \<and> n \<le> 32))"

definition strip :: "string \<Rightarrow> string" where
  "strip s = rev (dropWhile is_space (rev (dropWhile is_space s)))"

fun split_on :: "char \<Rightarrow> string \<Rightarrow> string list" where
  "split_on sep [] = [[]]"
| "split_on sep (x # xs) =
     (if x = sep then [] # split_on sep xs
      else (case split_on sep xs of
              [] \<Rightarrow> [[x]]
            | f # fs \<Rightarrow> (x # f) # fs))"

definition is_digit :: "char \<Rightarrow> bool" where
  "is_digit ch = (let n = (of_char ch :: nat) in 48 \<le> n \<and> n \<le> 57)"

fun parse_digits :: "int \<Rightarrow> bool \<Rightarrow> string \<Rightarrow> int option" where
  "parse_digits acc prev_digit [] = (if prev_digit then Some acc else None)"
| "parse_digits acc prev_digit (ch # rest) =
     (if is_digit ch then parse_digits (acc * 10 + (int (of_char ch) - 48)) True rest
      else if ch = CHR ''_'' \<and> prev_digit then parse_digits acc False rest
      else None)"

definition py_int :: "string \<Rightarrow> int option" where
  "py_int s =
     (case strip s of
        [] \<Rightarrow> None
      | ch # rest \<Rightarrow>
          if ch = CHR ''-'' then map_option uminus (parse_digits 0 False rest)
          else if ch = CHR ''+'' then parse_digits 0 False rest
          else parse_digits 0 False (ch # rest))"

text \<open>\<open>list(filter(lambda line: line.id == param, store.lines))[0]\<close>, as a position.\<close>

definition line_with_id :: "checkout_line list \<Rightarrow> int \<Rightarrow> nat option" where
  "line_with_id ls param =
     (case filter (\<lambda>i. lid (ls ! i) = param) [0..<length ls] of
        [] \<Rightarrow> None
      | i # _ \<Rightarrow> Some i)"

text \<open>
  Every exception inside the \<open>try\<close> becomes the parse error of the line at hand. A
  \<open>join\<close> line creates a customer, placed at the end of the customers.
\<close>

fun create_events :: "checkout_line list \<Rightarrow> nat \<Rightarrow> int \<Rightarrow> customer list \<Rightarrow> event list \<Rightarrow>
    string list \<Rightarrow> error + event list \<times> customer list" where
  "create_events ls idx curr_customer_id cs events [] = Inr (events, cs)"
| "create_events ls idx curr_customer_id cs events (line # rest) =
     (case split_on CHR '','' line of
        [f1, event_type, f3] \<Rightarrow>
          (case (py_int f1, py_int f3) of
             (Some ts, Some param) \<Rightarrow>
               if event_type = ''join'' then
                 create_events ls (idx + 1) (curr_customer_id + 1)
                   (cs @ [Customer curr_customer_id param])
                   (events @ [JoinCheckoutEvent ts (length cs)]) rest
               else if event_type \<in> set [''open'', ''close''] then
                 (case line_with_id ls param of
                    None \<Rightarrow> Inl (ParseError idx)
                  | Some l \<Rightarrow>
                      if event_type = ''open'' then
                        create_events ls (idx + 1) curr_customer_id cs
                          (events @ [LineOpenEvent ts l]) rest
                      else
                        create_events ls (idx + 1) curr_customer_id cs
                          (events @ [LineCloseEvent ts l]) rest)
               else Inl (ParseError idx)
           | _ \<Rightarrow> Inl (ParseError idx))
      | _ \<Rightarrow> Inl (ParseError idx))"

definition create_event_list :: "string \<Rightarrow> grocery_store \<Rightarrow> customer list \<Rightarrow>
    error + event list \<times> customer list" where
  "create_event_list initial_events_str s cs =
     create_events (lines s) 0 0 cs [] (split_on (CHR 0x0A) (strip initial_events_str))"

section \<open>Simulator\<close>

record simulator =
  events :: "event list"
  world :: world
  random_state :: "int option"
  finished :: bool

text \<open>
  A new simulator has no events and no customers yet; \<open>g\<close> is the state \<open>np.random\<close>
  happens to be in.
\<close>

definition Simulator :: "(string \<times> int) list \<Rightarrow> int option \<Rightarrow> (nat \<Rightarrow> nat) \<Rightarrow> simulator" where
  "Simulator store_config rs g =
     \<lparr>events = [], world = \<lparr>store = GroceryStore store_config, customers = [], rng = g\<rparr>,
      random_state = rs, finished = False\<rparr>"

text \<open>
  \<open>run\<close> with fuel \<open>n\<close> for its loop. \<open>seed\<close> stands for \<open>np.random.seed\<close>: the
  outputs the generator produces from a given seed.
\<close>

definition run :: "nat \<Rightarrow> (int \<Rightarrow> nat \<Rightarrow> nat) \<Rightarrow> utility \<Rightarrow> simulator \<Rightarrow> string \<Rightarrow>
    (error + simulator) option" where
  "run n seed u sim initial_events_str =
     (if finished sim then Some (Inl SimulatorFinished)
      else
        (let w0 = (case random_state sim of
                     None \<Rightarrow> world sim
                   | Some r \<Rightarrow> (world sim)\<lparr>rng := seed r\<rparr>)
         in case create_event_list initial_events_str (store w0) (customers w0) of
              Inl e \<Rightarrow> Some (Inl e)
            | Inr (initial_events, cs) \<Rightarrow>
               (case run_loop n u (foldl heappush (events sim) initial_events,
                                   w0\<lparr>customers := cs\<rparr>) of
                  None \<Rightarrow> None
                | Some (Inl e) \<Rightarrow> Some (Inl e)
                | Some (Inr (q, w)) \<Rightarrow>
                    Some (Inr (sim\<lparr>events := q, world := w, finished := True\<rparr>)))))"

section \<open>Statistics\<close>

text \<open>
  \<open>end_time\<close> is \<open>None\<close> for \<open>float("inf")\<close>, the bound every timestamp is below.
  Comparing or subtracting a timestamp that is still \<open>None\<close> raises \<open>TypeError\<close>.
\<close>

fun scan_served :: "customer list \<Rightarrow> string \<Rightarrow> int \<Rightarrow> int option \<Rightarrow> nat list \<Rightarrow> nat list \<Rightarrow>
    error + nat list" where
  "scan_served h filter_by start_time end_time acc [] = Inr acc"
| "scan_served h filter_by start_time end_time acc (r # rs) =
     (case deref h r of
        Inl e \<Rightarrow> Inl e
      | Inr cu \<Rightarrow>
         if filter_by \<in> set [''join'', ''begin'', ''finish''] then
           (case (if filter_by = ''join'' then join_timestamp cu
                  else if filter_by = ''begin'' then begin_timestamp cu
                  else finish_timestamp cu) of
              None \<Rightarrow> Inl TypeError
            | Some customer_timestamp \<Rightarrow>
                if start_time \<le> customer_timestamp \<and>
                   (case end_time of None \<Rightarrow> True | Some e \<Rightarrow> customer_timestamp < e)
                then scan_served h filter_by start_time end_time (acc @ [r]) rs
                else scan_served h filter_by start_time end_time acc rs)
         else Inl (UnknownFilterBy filter_by))"

fun scan_lines :: "customer list \<Rightarrow> int list option \<Rightarrow> string \<Rightarrow> int \<Rightarrow> int option \<Rightarrow> nat list \<Rightarrow>
    checkout_line list \<Rightarrow> error + nat list" where
  "scan_lines h line_ids filter_by start_time end_time acc [] = Inr acc"
| "scan_lines h line_ids filter_by start_time end_time acc (l # ls) =
     (if (case line_ids of None \<Rightarrow> True | Some ids \<Rightarrow> lid l \<in> set ids) then
        (case scan_served h filter_by start_time end_time acc (served l) of
           Inl e \<Rightarrow> Inl e
         | Inr acc' \<Rightarrow> scan_lines h line_ids filter_by start_time end_time acc' ls)
      else scan_lines h line_ids filter_by start_time end_time acc ls)"

definition py_sub :: "int option \<Rightarrow> int option \<Rightarrow> error + int" where
  "py_sub a b = (case (a, b) of (Some x, Some y) \<Rightarrow> Inr (x - y) | _ \<Rightarrow> Inl TypeError)"

fun raw_times :: "customer list \<Rightarrow> string \<Rightarrow> int list \<Rightarrow> nat list \<Rightarrow> error + int list" where
  "raw_times h criterion raw_time [] = Inr raw_time"
| "raw_times h criterion raw_time (r # rs) =
     (case deref h r of
        Inl e \<Rightarrow> Inl e
      | Inr cu \<Rightarrow>
         (case (if criterion = ''wait'' then py_sub (begin_timestamp cu) (join_timestamp cu)
                else if criterion = ''checkout'' then
                  py_sub (finish_timestamp cu) (begin_timestamp cu)
                else if criterion = ''total'' then
                  py_sub (finish_timestamp cu) (join_timestamp cu)
                else Inl (UnknownCriterion criterion)) of
            Inl e \<Rightarrow> Inl e
          | Inr v \<Rightarrow> raw_times h criterion (raw_time @ [v]) rs))"

text \<open>
  \<open>np.array(raw_time)\<close> is an array of 64-bit signed integers when every value fits
  one. Its \<open>sum\<close> is computed in that type and wraps around silently; \<open>min\<close> and
  \<open>max\<close> are exact, and raise on an array of size zero. With a value outside the
  64-bit range numpy builds an array of another type, whose reductions are not modelled:
  the model stops there with \<open>ArrayNotInt64\<close>.
\<close>

definition in_int64 :: "int \<Rightarrow> bool" where
  "in_int64 x = (- (2 ^ 63) \<le> x \<and> x < 2 ^ 63)"

definition np_sum :: "int list \<Rightarrow> int" where
  "np_sum xs = sint (foldl (+) 0 (map word_of_int xs) :: 64 word)"

definition np_min :: "int list \<Rightarrow> error + int" where
  "np_min xs = (case xs of [] \<Rightarrow> Inl EmptyReduction | x # rest \<Rightarrow> Inr (foldl min x rest))"

definition np_max :: "int list \<Rightarrow> error + int" where
  "np_max xs = (case xs of [] \<Rightarrow> Inl EmptyReduction | x # rest \<Rightarrow> Inr (foldl max x rest))"

text \<open>
  \<open>mean\<close> and \<open>std\<close> of numpy compute in floating point; what they return is not
  modelled. They are arguments \<open>np_mean\<close> and \<open>np_std\<close> of the query, which hands
  them the array and passes their results on.
\<close>

definition query_statistics :: "(int list \<Rightarrow> 'f) \<Rightarrow> (int list \<Rightarrow> 'f) \<Rightarrow> simulator \<Rightarrow> string \<Rightarrow>
    int option \<Rightarrow> int option \<Rightarrow> int list option \<Rightarrow> string \<Rightarrow>
    error + (int \<times> int \<times> int \<times> int \<times> 'f \<times> 'f) \<times> int list" where
  "query_statistics np_mean np_std sim criterion start_time end_time line_ids filter_by =
     (if \<not> finished sim then Inl SimulatorNotFinished
      else
        (let start_time' = (case start_time of None \<Rightarrow> 0 | Some t \<Rightarrow> t)
         in case scan_lines (customers (world sim)) line_ids filter_by start_time' end_time []
                   (lines (store (world sim))) of
              Inl e \<Rightarrow> Inl e
            | Inr cs \<Rightarrow>
               (case raw_times (customers (world sim)) criterion [] cs of
                  Inl e \<Rightarrow> Inl e
                | Inr raw_time \<Rightarrow>
                   if \<not> list_all in_int64 raw_time then Inl ArrayNotInt64
                   else
                     (case np_min raw_time of
                        Inl e \<Rightarrow> Inl e
                      | Inr mn \<Rightarrow>
                         (case np_max raw_time of
                            Inl e \<Rightarrow> Inl e
                          | Inr mx \<Rightarrow>
                              Inr ((int (length cs), np_sum raw_time, mn, mx,
                                    np_mean raw_time, np_std raw_time), raw_time))))))"

section \<open>Auxiliary definitions for the statements\<close>

text \<open>The utility slots as the end-to-end examples set them: the deterministic duration
  model, any of the five policies, either value of \<open>count_first\<close>.\<close>

definition deterministic_utility :: "policy \<Rightarrow> bool \<Rightarrow> utility" where
  "deterministic_utility p cf =
     \<lparr>get_checkout_time = get_checkout_time_deterministic, pick_checkout_line = p,
      count_first = cf\<rparr>"

text \<open>
  The invariant of \<open>least_loop\<close> over the set \<open>V\<close> of positions visited so far: with no
  best line yet, no visited line is applicable; otherwise the best line is visited and
  applicable, and against every other applicable visited line its quantity is not larger,
  and strictly smaller when that line comes before it.
\<close>

definition least_inv :: "(checkout_line \<Rightarrow> error + int) \<Rightarrow> customer \<Rightarrow> checkout_line list \<Rightarrow>
    nat set \<Rightarrow> nat option \<Rightarrow> bool" where
  "least_inv m c ls V best =
     (case best of
        None \<Rightarrow> \<forall>j\<in>V. \<not> applicable c (ls ! j)
      | Some b \<Rightarrow> b \<in> V \<and> applicable c (ls ! b) \<and>
          (\<forall>j\<in>V. applicable c (ls ! j) \<and> j \<noteq> b \<longrightarrow>
             (\<exists>v w. m (ls ! b) = Inr v \<and> m (ls ! j) = Inr w \<and> v \<le> w \<and> (j < b \<longrightarrow> v < w))))"

text \<open>A store with waiting customers, for the concrete instances of the statements.\<close>

definition example_customers :: "customer list" where
  "example_customers = [Customer 0 3, Customer 1 4, Customer 2 2, Customer 3 3]"

definition example_store :: grocery_store where
  "example_store =
     \<lparr>lines = [(CheckoutLine 0 ''cashier'')\<lparr>queue := [0, 1]\<rparr>,
               (CheckoutLine 1 ''express'')\<lparr>queue := [2]\<rparr>,
               (CheckoutLine 2 ''self'')\<lparr>queue := [3]\<rparr>],
      last_line_id = 2, total_lines = 3\<rparr>"

definition example_world :: world where
  "example_world = \<lparr>store = example_store, customers = example_customers, rng = (\<lambda>n. n)\<rparr>"

definition fresh_lines :: "checkout_line list \<Rightarrow> bool" where
  "fresh_lines ls = (\<forall>i<length ls. lid (ls ! i) = int i \<and> \<not> closed (ls ! i) \<and>
      queue (ls ! i) = [] \<and> served (ls ! i) = [])"


definition store_cashier_express :: grocery_store where
  "store_cashier_express = GroceryStore [(''express'', 1), (''cashier'', 1)]"






text \<open>The sum as 64-bit signed arithmetic gives it.\<close>

definition wrap_int64 :: "int \<Rightarrow> int" where
  "wrap_int64 x = (x + 2 ^ 63) mod 2 ^ 64 - 2 ^ 63"




text \<open>A finished simulator whose only line has served two customers, and the one a run
  on two arrivals with 2 ^ 62 items each ends in. Where a statement needs definite
  arguments for the floating-point reductions, \<open>no_float\<close> stands in.\<close>

definition no_float :: "int list \<Rightarrow> unit" where
  "no_float xs = ()"

definition served_simulator :: simulator where
  "served_simulator =
     \<lparr>events = [],
      world = \<lparr>store = \<lparr>lines = [\<lparr>lid = 0, ltype = ''cashier'', queue = [], served = [0, 1],
                                   closed = False\<rparr>],
                         last_line_id = 0, total_lines = 1\<rparr>,
               customers = [\<lparr>cid = 0, num_items = 3, join_timestamp = Some 0,
                              begin_timestamp = Some 0, finish_timestamp = Some 10\<rparr>,
                            \<lparr>cid = 1, num_items = 5, join_timestamp = Some 0,
                              begin_timestamp = Some 10, finish_timestamp = Some 22\<rparr>],
               rng = (\<lambda>n. n)\<rparr>,
      random_state = None, finished = True\<rparr>"

definition example_rng :: "nat \<Rightarrow> nat" where
  "example_rng n = n"



text \<open>
  The express rule as a property of a world: every customer waiting in or served by an
  express line exists and has at most 10 items.
\<close>

definition express_ok :: "world \<Rightarrow> bool" where
  "express_ok w =
     (\<forall>l\<in>set (lines (store w)). ltype l = ''express'' \<longrightarrow>
        (\<forall>r\<in>set (queue l) \<union> set (served l).
           r < length (customers w) \<and> num_items (customers w ! r) \<le> 10))"

text \<open>The example store with a fifth customer, 11 items, about to arrive; the cursor of
  the round robin stands at line 0, so that the express line 1 is looked at first.\<close>

definition arrival_world :: world where
  "arrival_world =
     \<lparr>store = example_store\<lparr>last_line_id := 0\<rparr>,
      customers = example_customers @ [Customer 4 11], rng = example_rng\<rparr>"

section \<open>Theorems\<close>

text \<open>
  C6. The deterministic duration model returns \<open>weight * items + bias\<close> with weights
  1, 1, 2 and biases 7, 4, 1 for the categories cashier, express and self, and fails with
  the unknown-category error for every other category. Being a HOL function of the
  customer and the line, it is pure.
\<close>

theorem get_checkout_time_deterministic_spec:
  "get_checkout_time_deterministic c l =
     (if ltype l = ''cashier'' then Inr (1 * num_items c + 7)
      else if ltype l = ''express'' then Inr (1 * num_items c + 4)
      else if ltype l = ''self'' then Inr (2 * num_items c + 1)
      else Inl (UnknownLineType (ltype l)))"
  by (simp add: get_checkout_time_deterministic_def dict_get_def checkout_w_def checkout_b_def)

subsection \<open>The end-to-end examples\<close>


lemma store_one_cashier: "GroceryStore [(''cashier'', 1)] = \<lparr>lines = [CheckoutLine 0 ''cashier''], last_line_id = 0, total_lines = 1\<rparr>"
  by code_simp

lemma parse_two_joins: "create_event_list ''0,join,3\<newline>0,join,5'' s [] =
   Inr ([JoinCheckoutEvent 0 0, JoinCheckoutEvent 0 1], [Customer 0 3, Customer 1 5])"
  by (simp add: create_event_list_def strip_def is_space_def py_int_def is_digit_def)

lemma parse_one_join: "create_event_list ''0,join,3'' s [] =
   Inr ([JoinCheckoutEvent 0 0], [Customer 0 3])"
  by (simp add: create_event_list_def strip_def is_space_def py_int_def is_digit_def)

lemma push_two_joins: "foldl heappush [] [JoinCheckoutEvent 0 0, JoinCheckoutEvent 0 1] = [JoinCheckoutEvent 0 0, JoinCheckoutEvent 0 1]"
  by code_simp

lemmas engine_defs = run_def run_loop_def step_def heappop_def siftup_def siftdown_def heappush_def
  event_lt_def join_do_def begin_do_def finish_do_def pick_line_def deref_def set_line_def
  is_empty_def get_num_customers_def queue_new_customer_def serve_next_customer_def
  pick_checkout_line_round_robin_def pick_checkout_line_least_person_def pick_checkout_line_least_item_def
  pick_checkout_line_least_time_def pick_checkout_line_pure_random_def pick_least_def randint_def
  list_index_def applicable_def CheckoutLine_def Customer_def Simulator_def deterministic_utility_def
  get_checkout_time_deterministic_def dict_get_def checkout_w_def checkout_b_def

lemma run_two_joins: "map_option (map_sum id (\<lambda>s. (events s, store (world s), customers (world s), finished s)))
   (run 6 seed (deterministic_utility p cf) (Simulator [(''cashier'', 1)] rs g) ''0,join,3\<newline>0,join,5'')
  = Some (Inr ([], \<lparr>lines = [\<lparr>lid = 0, ltype = ''cashier'', queue = [], served = [0, 1], closed = False\<rparr>],
           last_line_id = 0, total_lines = 1\<rparr>,
        [\<lparr>cid = 0, num_items = 3, join_timestamp = Some 0, begin_timestamp = Some 0, finish_timestamp = Some 10\<rparr>,
         \<lparr>cid = 1, num_items = 5, join_timestamp = Some 0, begin_timestamp = Some 10, finish_timestamp = Some 22\<rparr>], True))"
  apply (cases p; cases rs)
  apply (simp_all add: store_one_cashier parse_two_joins push_two_joins engine_defs eval_nat_numeral Let_def upto.simps)
  done

lemma run_one_join: "map_option (map_sum id (\<lambda>s. (events s, store (world s), customers (world s), finished s)))
   (run 3 seed (deterministic_utility p cf) (Simulator [(''cashier'', 1)] rs g) ''0,join,3'')
  = Some (Inr ([], \<lparr>lines = [\<lparr>lid = 0, ltype = ''cashier'', queue = [], served = [0], closed = False\<rparr>],
           last_line_id = 0, total_lines = 1\<rparr>,
        [\<lparr>cid = 0, num_items = 3, join_timestamp = Some 0, begin_timestamp = Some 0, finish_timestamp = Some 10\<rparr>], True))"
  apply (cases p; cases rs)
  apply (simp_all add: store_one_cashier parse_one_join engine_defs eval_nat_numeral Let_def upto.simps)
  done

lemma map_option_sum_SomeD: "map_option (map_sum id f) X = Some (Inr v) \<Longrightarrow> \<exists>s. X = Some (Inr s) \<and> f s = v"
  by (cases X) (auto simp: map_sum_def split: sum.splits)

lemma foldl_word_of_int:
  "foldl (+) (w :: 64 word) (map word_of_int xs) = w + word_of_int (sum_list xs)"
  by (induction xs arbitrary: w) (simp_all add: add.assoc)

lemma np_sum_wrap: "np_sum xs = wrap_int64 (sum_list xs)"
  by (simp add: np_sum_def wrap_int64_def foldl_word_of_int int_word_sint)


lemmas stats_defs = query_statistics_def deref_def py_sub_def np_sum_wrap wrap_int64_def
  in_int64_def np_min_def np_max_def

lemma query_two_joins:
  assumes "store (world sim) = \<lparr>lines = [\<lparr>lid = 0, ltype = ''cashier'', queue = [], served = [0, 1], closed = False\<rparr>],
           last_line_id = 0, total_lines = 1\<rparr>"
   and "customers (world sim) = [\<lparr>cid = 0, num_items = 3, join_timestamp = Some 0, begin_timestamp = Some 0, finish_timestamp = Some 10\<rparr>,
         \<lparr>cid = 1, num_items = 5, join_timestamp = Some 0, begin_timestamp = Some 10, finish_timestamp = Some 22\<rparr>]"
   and "finished sim"
  shows "query_statistics np_mean np_std sim ''wait'' None None None ''join'' =
     Inr ((2, 10, 0, 10, np_mean [0, 10], np_std [0, 10]), [0, 10])"
  using assms by (simp add: stats_defs)

lemma query_one_join:
  assumes "store (world sim) = \<lparr>lines = [\<lparr>lid = 0, ltype = ''cashier'', queue = [], served = [0], closed = False\<rparr>],
           last_line_id = 0, total_lines = 1\<rparr>"
   and "customers (world sim) = [\<lparr>cid = 0, num_items = 3, join_timestamp = Some 0, begin_timestamp = Some 0, finish_timestamp = Some 10\<rparr>]"
   and "finished sim"
  shows "query_statistics np_mean np_std sim ''wait'' None None None ''join'' =
     Inr ((1, 0, 0, 0, np_mean [0], np_std [0]), [0])"
  using assms by (simp add: stats_defs)

text \<open>
  C1. One cashier line with id 0 and the deterministic duration model, under any of the
  five policies. On the text \<open>0,join,3\<close> followed by \<open>0,join,5\<close> the run ends (six turns
  of the loop) with customer 0 joined at 0, begun at 0, finished at 10 and customer 1
  joined at 0, begun at 10, finished at 22; the query for \<open>wait\<close> then returns the raw
  values 0 and 10 (count 2, sum 10, minimum 0, maximum 10, and what numpy's \<open>mean\<close> and
  \<open>std\<close> give on these two values). On the text \<open>0,join,3\<close> alone the run ends with
  customer 0 finished at 10, and the query returns count 1 and the single wait 0.
\<close>

theorem end_to_end_one_cashier:
  "(\<exists>sim. run 6 seed (deterministic_utility p cf) (Simulator [(''cashier'', 1)] rs g) ''0,join,3\<newline>0,join,5'' = Some (Inr sim) \<and>
      customers (world sim) =
        [\<lparr>cid = 0, num_items = 3, join_timestamp = Some 0, begin_timestamp = Some 0, finish_timestamp = Some 10\<rparr>,
         \<lparr>cid = 1, num_items = 5, join_timestamp = Some 0, begin_timestamp = Some 10, finish_timestamp = Some 22\<rparr>] \<and>
      query_statistics np_mean np_std sim ''wait'' None None None ''join'' =
        Inr ((2, 10, 0, 10, np_mean [0, 10], np_std [0, 10]), [0, 10])) \<and>
   (\<exists>sim. run 3 seed (deterministic_utility p cf) (Simulator [(''cashier'', 1)] rs g) ''0,join,3'' = Some (Inr sim) \<and>
      customers (world sim) =
        [\<lparr>cid = 0, num_items = 3, join_timestamp = Some 0, begin_timestamp = Some 0, finish_timestamp = Some 10\<rparr>] \<and>
      query_statistics np_mean np_std sim ''wait'' None None None ''join'' =
        Inr ((1, 0, 0, 0, np_mean [0], np_std [0]), [0]))"
proof (intro conjI)
  from map_option_sum_SomeD[OF run_two_joins[of seed p cf rs g]] obtain sim where
    "run 6 seed (deterministic_utility p cf) (Simulator [(''cashier'', 1)] rs g) ''0,join,3\<newline>0,join,5'' = Some (Inr sim)"
    and s: "(events sim, store (world sim), customers (world sim), finished sim) = 
      ([], \<lparr>lines = [\<lparr>lid = 0, ltype = ''cashier'', queue = [], served = [0, 1], closed = False\<rparr>],
           last_line_id = 0, total_lines = 1\<rparr>,
        [\<lparr>cid = 0, num_items = 3, join_timestamp = Some 0, begin_timestamp = Some 0, finish_timestamp = Some 10\<rparr>,
         \<lparr>cid = 1, num_items = 5, join_timestamp = Some 0, begin_timestamp = Some 10, finish_timestamp = Some 22\<rparr>], True)"
    by blast
  moreover from s have "query_statistics np_mean np_std sim ''wait'' None None None ''join'' =
        Inr ((2, 10, 0, 10, np_mean [0, 10], np_std [0, 10]), [0, 10])"
    by (intro query_two_joins) simp_all
  ultimately show "\<exists>sim. run 6 seed (deterministic_utility p cf) (Simulator [(''cashier'', 1)] rs g) ''0,join,3\<newline>0,join,5'' = Some (Inr sim) \<and>
      customers (world sim) =
        [\<lparr>cid = 0, num_items = 3, join_timestamp = Some 0, begin_timestamp = Some 0, finish_timestamp = Some 10\<rparr>,
         \<lparr>cid = 1, num_items = 5, join_timestamp = Some 0, begin_timestamp = Some 10, finish_timestamp = Some 22\<rparr>] \<and>
      query_statistics np_mean np_std sim ''wait'' None None None ''join'' =
        Inr ((2, 10, 0, 10, np_mean [0, 10], np_std [0, 10]), [0, 10])"
    by auto
next
  from map_option_sum_SomeD[OF run_one_join[of seed p cf rs g]] obtain sim where
    "run 3 seed (deterministic_utility p cf) (Simulator [(''cashier'', 1)] rs g) ''0,join,3'' = Some (Inr sim)"
    and s: "(events sim, store (world sim), customers (world sim), finished sim) = 
      ([], \<lparr>lines = [\<lparr>lid = 0, ltype = ''cashier'', queue = [], served = [0], closed = False\<rparr>],
           last_line_id = 0, total_lines = 1\<rparr>,
        [\<lparr>cid = 0, num_items = 3, join_timestamp = Some 0, begin_timestamp = Some 0, finish_timestamp = Some 10\<rparr>], True)"
    by blast
  moreover from s have "query_statistics np_mean np_std sim ''wait'' None None None ''join'' =
        Inr ((1, 0, 0, 0, np_mean [0], np_std [0]), [0])"
    by (intro query_one_join) simp_all
  ultimately show "\<exists>sim. run 3 seed (deterministic_utility p cf) (Simulator [(''cashier'', 1)] rs g) ''0,join,3'' = Some (Inr sim) \<and>
      customers (world sim) =
        [\<lparr>cid = 0, num_items = 3, join_timestamp = Some 0, begin_timestamp = Some 0, finish_timestamp = Some 10\<rparr>] \<and>
      query_statistics np_mean np_std sim ''wait'' None None None ''join'' =
        Inr ((1, 0, 0, 0, np_mean [0], np_std [0]), [0])"
    by auto
qed

subsection \<open>The least-person, least-item and least-time policies\<close>

lemma least_inv_skip:
  "least_inv m c ls V best \<Longrightarrow> \<not> applicable c (ls ! i) \<Longrightarrow> least_inv m c ls (insert i V) best"
  by (auto simp: least_inv_def split: option.splits)

lemma least_inv_first:
  "least_inv m c ls V None \<Longrightarrow> applicable c (ls ! i) \<Longrightarrow> least_inv m c ls (insert i V) (Some i)"
  by (auto simp: least_inv_def)

lemma least_inv_keep:
  assumes "least_inv m c ls V (Some b)" "m (ls ! i) = Inr v" "m (ls ! b) = Inr w" "\<not> v < w"
    and "\<forall>j\<in>V. j < i"
  shows "least_inv m c ls (insert i V) (Some b)"
  using assms unfolding least_inv_def by (auto simp: not_less)

lemma least_inv_replace:
  assumes "least_inv m c ls V (Some b)" "m (ls ! i) = Inr v" "m (ls ! b) = Inr w" "v < w"
    and "applicable c (ls ! i)"
  shows "least_inv m c ls (insert i V) (Some i)"
  using assms unfolding least_inv_def by (fastforce)

lemma least_loop_inv:
  "least_loop m c ls is best = Inr r \<Longrightarrow> least_inv m c ls V best \<Longrightarrow>
   \<forall>j\<in>V. \<forall>i\<in>set is. j < i \<Longrightarrow> sorted is \<Longrightarrow> distinct is \<Longrightarrow>
   least_inv m c ls (V \<union> set is) r"
proof (induction "is" arbitrary: best V)
  case Nil
  then show ?case by simp
next
  case (Cons i "is")
  have lt: "\<forall>j\<in>insert i V. \<forall>i'\<in>set is. j < i'"
    using Cons.prems(3,4,5) by (auto simp: less_le)
  have so: "sorted is" "distinct is" using Cons.prems by auto
  have Vi: "\<forall>j\<in>V. j < i" using Cons.prems(3) by simp
  have eq: "V \<union> set (i # is) = insert i V \<union> set is" by auto
  show ?case
  proof (cases "applicable c (ls ! i)")
    case False
    with Cons.prems(1) have "least_loop m c ls is best = Inr r" by simp
    from Cons.IH[OF this least_inv_skip[OF Cons.prems(2) False] lt so]
    show ?thesis unfolding eq .
  next
    case True
    show ?thesis
    proof (cases best)
      case None
      with True Cons.prems(1) have "least_loop m c ls is (Some i) = Inr r" by simp
      from Cons.IH[OF this least_inv_first[OF Cons.prems(2)[unfolded None] True] lt so]
      show ?thesis unfolding eq .
    next
      case (Some b)
      from True Some Cons.prems(1) obtain v w where
        v: "m (ls ! i) = Inr v" and w: "m (ls ! b) = Inr w"
        by (auto split: sum.splits)
      show ?thesis
      proof (cases "v < w")
        case True': True
        with True Some v w Cons.prems(1) have "least_loop m c ls is (Some i) = Inr r" by simp
        from Cons.IH[OF this least_inv_replace[OF Cons.prems(2)[unfolded Some] v w True' True] lt so]
        show ?thesis unfolding eq .
      next
        case False
        with True Some v w Cons.prems(1) have "least_loop m c ls is (Some b) = Inr r" by simp
        from Cons.IH[OF this least_inv_keep[OF Cons.prems(2)[unfolded Some] v w False Vi] lt so]
        show ?thesis unfolding eq .
      qed
    qed
  qed
qed

lemma pick_least_sound:
  assumes "pick_least m c s = Inr k"
  shows "k < length (lines s) \<and> applicable c (lines s ! k) \<and>
     (\<forall>j<length (lines s). applicable c (lines s ! j) \<and> j \<noteq> k \<longrightarrow>
        (\<exists>v w. m (lines s ! k) = Inr v \<and> m (lines s ! j) = Inr w \<and> v \<le> w \<and> (j < k \<longrightarrow> v < w)))"
proof -
  from assms have l: "least_loop m c (lines s) [0..<length (lines s)] None = Inr (Some k)"
    by (auto simp: pick_least_def split: sum.splits option.splits)
  have "least_inv m c (lines s) ({} \<union> set [0..<length (lines s)]) (Some k)"
    by (rule least_loop_inv[OF l]) (auto simp: least_inv_def)
  then show ?thesis by (auto simp: least_inv_def)
qed

lemma least_loop_total:
  "\<forall>i\<in>set is. applicable c (ls ! i) \<longrightarrow> (\<exists>v. m (ls ! i) = Inr v) \<Longrightarrow>
   (\<forall>b. best = Some b \<longrightarrow> (\<exists>v. m (ls ! b) = Inr v)) \<Longrightarrow>
   \<exists>r. least_loop m c ls is best = Inr r \<and>
       (r = None \<longleftrightarrow> best = None \<and> (\<forall>i\<in>set is. \<not> applicable c (ls ! i)))"
proof (induction "is" arbitrary: best)
  case Nil
  then show ?case by simp
next
  case (Cons i "is")
  show ?case
  proof (cases "applicable c (ls ! i)")
    case False
    then show ?thesis using Cons.IH[of best] Cons.prems by auto
  next
    case True
    then obtain v where v: "m (ls ! i) = Inr v" using Cons.prems(1) by auto
    show ?thesis
    proof (cases best)
      case None
      then show ?thesis using True v Cons.IH[of "Some i"] Cons.prems by auto
    next
      case (Some b)
      then obtain w where w: "m (ls ! b) = Inr w" using Cons.prems(2) by auto
      show ?thesis using True Some v w Cons.IH[of "Some i"] Cons.IH[of "Some b"] Cons.prems
        by auto
    qed
  qed
qed

lemma pick_least_total:
  assumes "\<exists>j<length (lines s). applicable c (lines s ! j)"
    and "\<forall>j<length (lines s). applicable c (lines s ! j) \<longrightarrow> (\<exists>v. m (lines s ! j) = Inr v)"
  shows "\<exists>k. pick_least m c s = Inr k"
proof -
  from least_loop_total[of "[0..<length (lines s)]" c "lines s" m None] assms(2)
  obtain r where r: "least_loop m c (lines s) [0..<length (lines s)] None = Inr r"
    "(r = None) = (\<forall>i\<in>set [0..<length (lines s)]. \<not> applicable c (lines s ! i))"
    by auto
  with assms(1) obtain k where "r = Some k" by (cases r) auto
  with r show ?thesis by (simp add: pick_least_def)
qed



text \<open>
  C5. When the least-person, least-item or least-time policy returns a line, that line is
  applicable, its quantity (queue length, waiting items, projected wait) is at most that
  of every other applicable line, and strictly below that of every applicable line placed
  before it in \<open>store.lines\<close>: among the lines attaining the minimum the first one
  is returned. When some line is applicable (and, for items and time, the quantity of
  every applicable line can be computed) a line is returned.
\<close>

theorem least_policies_minimal:
  "(pick_checkout_line_least_person c s = Inr k \<longrightarrow>
      k < length (lines s) \<and> applicable c (lines s ! k) \<and>
      (\<forall>j<length (lines s). applicable c (lines s ! j) \<longrightarrow>
         get_num_customers (lines s ! k) \<le> get_num_customers (lines s ! j) \<and>
         (j < k \<longrightarrow> get_num_customers (lines s ! k) < get_num_customers (lines s ! j)))) \<and>
   (pick_checkout_line_least_item h c s = Inr k \<longrightarrow>
      k < length (lines s) \<and> applicable c (lines s ! k) \<and>
      (\<forall>j<length (lines s). applicable c (lines s ! j) \<and> j \<noteq> k \<longrightarrow>
         (\<exists>v w. get_num_items h (lines s ! k) = Inr v \<and> get_num_items h (lines s ! j) = Inr w \<and>
                v \<le> w \<and> (j < k \<longrightarrow> v < w)))) \<and>
   (pick_checkout_line_least_time gct cf h c s = Inr k \<longrightarrow>
      k < length (lines s) \<and> applicable c (lines s ! k) \<and>
      (\<forall>j<length (lines s). applicable c (lines s ! j) \<and> j \<noteq> k \<longrightarrow>
         (\<exists>v w. get_queue_time gct h (lines s ! k) cf = Inr v \<and>
                get_queue_time gct h (lines s ! j) cf = Inr w \<and>
                v \<le> w \<and> (j < k \<longrightarrow> v < w)))) \<and>
   ((\<exists>j<length (lines s). applicable c (lines s ! j)) \<longrightarrow>
      (\<exists>k'. pick_checkout_line_least_person c s = Inr k')) \<and>
   ((\<exists>j<length (lines s). applicable c (lines s ! j)) \<and>
    (\<forall>j<length (lines s). applicable c (lines s ! j) \<longrightarrow> (\<exists>v. get_num_items h (lines s ! j) = Inr v)) \<longrightarrow>
      (\<exists>k'. pick_checkout_line_least_item h c s = Inr k')) \<and>
   ((\<exists>j<length (lines s). applicable c (lines s ! j)) \<and>
    (\<forall>j<length (lines s). applicable c (lines s ! j) \<longrightarrow>
        (\<exists>v. get_queue_time gct h (lines s ! j) cf = Inr v)) \<longrightarrow>
      (\<exists>k'. pick_checkout_line_least_time gct cf h c s = Inr k'))"
proof (intro conjI impI)
  assume a: "pick_checkout_line_least_person c s = Inr k"
  note r = pick_least_sound[OF a[unfolded pick_checkout_line_least_person_def]]
  from r show "k < length (lines s)" by simp
  from r show "applicable c (lines s ! k)" by simp
  show "\<forall>j<length (lines s). applicable c (lines s ! j) \<longrightarrow>
         get_num_customers (lines s ! k) \<le> get_num_customers (lines s ! j) \<and>
         (j < k \<longrightarrow> get_num_customers (lines s ! k) < get_num_customers (lines s ! j))"
  proof (intro allI impI)
    fix j assume j: "j < length (lines s)" "applicable c (lines s ! j)"
    show "get_num_customers (lines s ! k) \<le> get_num_customers (lines s ! j) \<and>
         (j < k \<longrightarrow> get_num_customers (lines s ! k) < get_num_customers (lines s ! j))"
    proof (cases "j = k")
      case True then show ?thesis by simp
    next
      case False
      with r j show ?thesis by auto
    qed
  qed
next
  assume a: "pick_checkout_line_least_item h c s = Inr k"
  note r = pick_least_sound[OF a[unfolded pick_checkout_line_least_item_def]]
  from r show "k < length (lines s)" by simp
  from r show "applicable c (lines s ! k)" by simp
  from r show "\<forall>j<length (lines s). applicable c (lines s ! j) \<and> j \<noteq> k \<longrightarrow>
         (\<exists>v w. get_num_items h (lines s ! k) = Inr v \<and> get_num_items h (lines s ! j) = Inr w \<and>
                v \<le> w \<and> (j < k \<longrightarrow> v < w))" by simp
next
  assume a: "pick_checkout_line_least_time gct cf h c s = Inr k"
  note r = pick_least_sound[OF a[unfolded pick_checkout_line_least_time_def]]
  from r show "k < length (lines s)" by simp
  from r show "applicable c (lines s ! k)" by simp
  from r show "\<forall>j<length (lines s). applicable c (lines s ! j) \<and> j \<noteq> k \<longrightarrow>
         (\<exists>v w. get_queue_time gct h (lines s ! k) cf = Inr v \<and>
                get_queue_time gct h (lines s ! j) cf = Inr w \<and>
                v \<le> w \<and> (j < k \<longrightarrow> v < w))" by simp
next
  assume "\<exists>j<length (lines s). applicable c (lines s ! j)"
  then show "\<exists>k'. pick_checkout_line_least_person c s = Inr k'"
    unfolding pick_checkout_line_least_person_def by (intro pick_least_total) auto
next
  assume "(\<exists>j<length (lines s). applicable c (lines s ! j)) \<and>
    (\<forall>j<length (lines s). applicable c (lines s ! j) \<longrightarrow> (\<exists>v. get_num_items h (lines s ! j) = Inr v))"
  then show "\<exists>k'. pick_checkout_line_least_item h c s = Inr k'"
    unfolding pick_checkout_line_least_item_def by (intro pick_least_total) auto
next
  assume "(\<exists>j<length (lines s). applicable c (lines s ! j)) \<and>
    (\<forall>j<length (lines s). applicable c (lines s ! j) \<longrightarrow>
        (\<exists>v. get_queue_time gct h (lines s ! j) cf = Inr v))"
  then show "\<exists>k'. pick_checkout_line_least_time gct cf h c s = Inr k'"
    unfolding pick_checkout_line_least_time_def by (intro pick_least_total) auto
qed

lemmas example_defs = example_store_def example_customers_def CheckoutLine_def Customer_def
  pick_least_def applicable_def get_num_customers_def get_num_items_def get_queue_time_def deref_def
  get_checkout_time_deterministic_def dict_get_def checkout_w_def checkout_b_def

lemma example_least_person: "pick_checkout_line_least_person (Customer 9 5) example_store = Inr 1"
  by (simp add: pick_checkout_line_least_person_def example_defs)
lemma example_least_item: "pick_checkout_line_least_item example_customers (Customer 9 5) example_store = Inr 1"
  by (simp add: pick_checkout_line_least_item_def example_defs)
lemma example_least_time: "pick_checkout_line_least_time get_checkout_time_deterministic True example_customers (Customer 9 5) example_store = Inr 1"
  by (simp add: pick_checkout_line_least_time_def example_defs)

text \<open>The instance of C5 on the example store: all three policies return line 1.\<close>

theorem least_policies_minimal_witness:
  "pick_checkout_line_least_person (Customer 9 5) example_store = Inr 1 \<and>
   pick_checkout_line_least_item example_customers (Customer 9 5) example_store = Inr 1 \<and>
   pick_checkout_line_least_time get_checkout_time_deterministic True example_customers
     (Customer 9 5) example_store = Inr 1 \<and>
   applicable (Customer 9 5) (lines example_store ! 2) \<and>
   get_num_customers (lines example_store ! 1) \<le> get_num_customers (lines example_store ! 2) \<and>
   get_num_customers (lines example_store ! 1) < get_num_customers (lines example_store ! 0) \<and>
   (\<exists>v w. get_num_items example_customers (lines example_store ! 1) = Inr v \<and>
          get_num_items example_customers (lines example_store ! 2) = Inr w \<and> v \<le> w) \<and>
   (\<exists>v w. get_queue_time get_checkout_time_deterministic example_customers
            (lines example_store ! 1) True = Inr v \<and>
          get_queue_time get_checkout_time_deterministic example_customers
            (lines example_store ! 2) True = Inr w \<and> v \<le> w)"
  using least_policies_minimal [of "Customer 9 5" example_store 1 example_customers
      get_checkout_time_deterministic True]
  by (simp add: example_least_person example_least_item example_least_time) (simp add: example_defs)

subsection \<open>FinishCheckout\<close>

text \<open>
  C2. A FinishCheckout event at time \<open>t\<close> for the customer at the head of its line's
  queue sets that customer's finish timestamp to \<open>t\<close>, removes the head from the queue
  and appends it to the served list, changes nothing else, and returns exactly one
  BeginCheckout event at the same time \<open>t\<close> for the new head when the queue is still
  occupied, and no event otherwise.
\<close>

theorem finish_do_head:
  assumes "c < length (customers w)" and "l < length (lines (store w))"
    and "queue (lines (store w) ! l) = c # rest"
  shows "finish_do t c l w =
     Inr ((case rest of [] \<Rightarrow> [] | next_customer # _ \<Rightarrow> [BeginCheckoutEvent t next_customer l]),
          w\<lparr>customers := (customers w)[c := (customers w ! c)\<lparr>finish_timestamp := Some t\<rparr>],
            store := (store w)\<lparr>lines := (lines (store w))
              [l := (lines (store w) ! l)\<lparr>queue := rest,
                     served := served (lines (store w) ! l) @ [c]\<rparr>]\<rparr>\<rparr>)"
  using assms
  by (cases rest)
     (simp_all add: finish_do_def deref_def set_line_def is_empty_def get_num_customers_def
        serve_next_customer_def Let_def)

text \<open>The instance of C2 on the example store: customer 0 finishes at the head of line 0.\<close>

theorem finish_do_head_witness:
  "(0::nat) < length (customers example_world) \<and> (0::nat) < length (lines (store example_world)) \<and>
   queue (lines (store example_world) ! 0) = [0, 1] \<and>
   (\<exists>w'. finish_do 5 0 0 example_world = Inr ([BeginCheckoutEvent 5 1 0], w') \<and>
      finish_timestamp (customers w' ! 0) = Some 5 \<and>
      queue (lines (store w') ! 0) = [1] \<and> served (lines (store w') ! 0) = [0])"
  using finish_do_head [of 0 example_world 0 "[1]" 5]
  by (simp add: example_world_def example_store_def example_customers_def CheckoutLine_def Customer_def)

subsection \<open>The store and the round-robin policy\<close>

lemma fresh_lines_snoc:
  "fresh_lines ls \<Longrightarrow> fresh_lines (ls @ [CheckoutLine (int (length ls)) t])"
  by (auto simp: fresh_lines_def nth_append CheckoutLine_def less_Suc_eq)

lemma add_lines_fresh:
  "fresh_lines ls \<Longrightarrow> line_id = int (length ls) \<Longrightarrow> add_lines ls line_id t n = (ls', id') \<Longrightarrow>
   fresh_lines ls' \<and> id' = int (length ls')"
proof (induction n arbitrary: ls line_id)
  case 0
  then show ?case by auto
next
  case (Suc n)
  from Suc.prems(3) have "add_lines (ls @ [CheckoutLine line_id t]) (line_id + 1) t n = (ls', id')"
    by simp
  moreover have "fresh_lines (ls @ [CheckoutLine line_id t])"
    using fresh_lines_snoc[OF Suc.prems(1)] Suc.prems(2) by simp
  moreover have "line_id + 1 = int (length (ls @ [CheckoutLine line_id t]))"
    using Suc.prems(2) by simp
  ultimately show ?case by (rule Suc.IH[rotated 2])
qed

lemma build_lines_fresh:
  "fresh_lines ls \<Longrightarrow> line_id = int (length ls) \<Longrightarrow> build_lines ls line_id lc = (ls', id') \<Longrightarrow>
   fresh_lines ls' \<and> id' = int (length ls')"
proof (induction lc arbitrary: ls line_id)
  case Nil
  then show ?case by auto
next
  case (Cons a lc)
  obtain t n where a: "a = (t, n)" by (cases a)
  obtain ls1 id1 where al: "add_lines ls line_id t (nat n) = (ls1, id1)"
    by (cases "add_lines ls line_id t (nat n)")
  from add_lines_fresh[OF Cons.prems(1,2) al] have f1: "fresh_lines ls1" "id1 = int (length ls1)"
    by auto
  from Cons.prems(3) a al have "build_lines ls1 id1 lc = (ls', id')" by simp
  from Cons.IH[OF f1 this] show ?case .
qed

lemma GroceryStore_fresh:
  "fresh_lines (lines (GroceryStore lc)) \<and>
   total_lines (GroceryStore lc) = int (length (lines (GroceryStore lc))) \<and>
   last_line_id (GroceryStore lc) = total_lines (GroceryStore lc) - 1"
proof -
  obtain ls n where b: "build_lines [] 0 (sort lc) = (ls, n)"
    by (cases "build_lines [] 0 (sort lc)")
  have "fresh_lines ls \<and> n = int (length ls)"
    by (rule build_lines_fresh[OF _ _ b]) (simp_all add: fresh_lines_def)
  with b show ?thesis by (simp add: GroceryStore_def)
qed



lemma list_index_nonneg:
  "0 \<le> i \<Longrightarrow> list_index xs i = (if i < int (length xs) then Inr (nat i) else Inl IndexError)"
  by (simp add: list_index_def Let_def)



lemma rr_scan_upto:
  "rr_scan c s [i..n] = Inr (Some k) \<Longrightarrow>
   \<exists>off. i \<le> off \<and> off \<le> n \<and>
     list_index (lines s) ((last_line_id s + off) mod total_lines s) = Inr k \<and>
     applicable c (lines s ! k) \<and>
     (\<forall>d. i \<le> d \<and> d < off \<longrightarrow>
        (\<exists>k'. list_index (lines s) ((last_line_id s + d) mod total_lines s) = Inr k' \<and>
           \<not> applicable c (lines s ! k')))"
proof (induction i n rule: upto.induct)
  case (1 i n)
  show ?case
  proof (cases "i \<le> n")
    case False
    with "1.prems" show ?thesis by (simp add: upto.simps)
  next
    case True
    then have u: "[i..n] = i # [i + 1..n]" by (simp add: upto.simps)
    from "1.prems" obtain k0 where k0:
      "list_index (lines s) ((last_line_id s + i) mod total_lines s) = Inr k0"
      unfolding u by (auto split: sum.splits)
    show ?thesis
    proof (cases "applicable c (lines s ! k0)")
      case a: True
      with "1.prems" k0 have "k = k0" unfolding u by simp
      with a k0 True show ?thesis by (intro exI[of _ i]) auto
    next
      case na: False
      with "1.prems" k0 have "rr_scan c s [i + 1..n] = Inr (Some k)" unfolding u by simp
      from "1.IH"[OF True this] obtain off where
        p: "i + 1 \<le> off" "off \<le> n"
          "list_index (lines s) ((last_line_id s + off) mod total_lines s) = Inr k"
          "applicable c (lines s ! k)"
          "\<forall>d. i + 1 \<le> d \<and> d < off \<longrightarrow>
            (\<exists>k'. list_index (lines s) ((last_line_id s + d) mod total_lines s) = Inr k' \<and>
               \<not> applicable c (lines s ! k'))"
        by blast
      have "\<forall>d. i \<le> d \<and> d < off \<longrightarrow>
            (\<exists>k'. list_index (lines s) ((last_line_id s + d) mod total_lines s) = Inr k' \<and>
               \<not> applicable c (lines s ! k'))"
      proof (intro allI impI)
        fix d assume d: "i \<le> d \<and> d < off"
        show "\<exists>k'. list_index (lines s) ((last_line_id s + d) mod total_lines s) = Inr k' \<and>
               \<not> applicable c (lines s ! k')"
        proof (cases "d = i")
          case True
          with k0 na show ?thesis by simp
        next
          case False
          with d have "i + 1 \<le> d \<and> d < off" by simp
          with p(5) show ?thesis by simp
        qed
      qed
      with p(1-4) show ?thesis by (intro exI[of _ off]) simp
    qed
  qed
qed


lemma round_robin_scan:
  assumes "pick_checkout_line_round_robin c s = Inr (k, s')"
  shows "s' = s\<lparr>last_line_id := lid (lines s ! k)\<rparr> \<and> k < length (lines s) \<and>
     applicable c (lines s ! k) \<and>
     (\<exists>off. 1 \<le> off \<and> off \<le> total_lines s \<and>
        int k = (last_line_id s + off) mod total_lines s \<and>
        (\<forall>d. 1 \<le> d \<and> d < off \<longrightarrow>
           \<not> applicable c (lines s ! nat ((last_line_id s + d) mod total_lines s))))"
proof -
  from assms have sc: "rr_scan c s [1..total_lines s] = Inr (Some k)"
    and s': "s' = s\<lparr>last_line_id := lid (lines s ! k)\<rparr>"
    by (auto simp: pick_checkout_line_round_robin_def split: sum.splits option.splits)
  from rr_scan_upto[OF sc] obtain off where
    p: "1 \<le> off" "off \<le> total_lines s"
      "list_index (lines s) ((last_line_id s + off) mod total_lines s) = Inr k"
      "applicable c (lines s ! k)"
      "\<forall>d. 1 \<le> d \<and> d < off \<longrightarrow>
        (\<exists>k'. list_index (lines s) ((last_line_id s + d) mod total_lines s) = Inr k' \<and>
           \<not> applicable c (lines s ! k'))"
    by blast
  then have pos: "0 < total_lines s" by simp
  then have nn: "\<And>x. 0 \<le> x mod total_lines s" by simp
  from p(3) nn[of "last_line_id s + off"] have k: "k < length (lines s)"
    "int k = (last_line_id s + off) mod total_lines s"
    by (auto simp: list_index_nonneg split: if_splits)
  have "\<forall>d. 1 \<le> d \<and> d < off \<longrightarrow>
           \<not> applicable c (lines s ! nat ((last_line_id s + d) mod total_lines s))"
  proof (intro allI impI)
    fix d assume "1 \<le> d \<and> d < off"
    with p(5) obtain k' where "list_index (lines s) ((last_line_id s + d) mod total_lines s) = Inr k'"
      "\<not> applicable c (lines s ! k')" by blast
    with nn[of "last_line_id s + d"] show
      "\<not> applicable c (lines s ! nat ((last_line_id s + d) mod total_lines s))"
      by (auto simp: list_index_nonneg split: if_splits)
  qed
  then have "\<exists>off. 1 \<le> off \<and> off \<le> total_lines s \<and>
        int k = (last_line_id s + off) mod total_lines s \<and>
        (\<forall>d. 1 \<le> d \<and> d < off \<longrightarrow>
           \<not> applicable c (lines s ! nat ((last_line_id s + d) mod total_lines s)))"
    using p(1,2) k(2) by (intro exI[of _ off]) simp
  with s' k(1) p(4) show ?thesis by simp
qed

lemma round_robin_next:
  assumes tl: "total_lines s = int (length (lines s))" and ne: "lines s \<noteq> []"
    and ap: "applicable c (lines s ! nat ((last_line_id s + 1) mod total_lines s))"
  shows "pick_checkout_line_round_robin c s =
     Inr (nat ((last_line_id s + 1) mod total_lines s),
          s\<lparr>last_line_id := lid (lines s ! nat ((last_line_id s + 1) mod total_lines s))\<rparr>)"
proof -
  from tl ne have pos: "0 < total_lines s" by simp
  then have u: "[1..total_lines s] = 1 # [2..total_lines s]"
    by (simp add: upto_rec1)
  have r: "0 \<le> (last_line_id s + 1) mod total_lines s"
    "(last_line_id s + 1) mod total_lines s < int (length (lines s))"
    using pos tl by simp_all
  then have "list_index (lines s) ((last_line_id s + 1) mod total_lines s) =
      Inr (nat ((last_line_id s + 1) mod total_lines s))"
    by (simp add: list_index_nonneg)
  with ap show ?thesis
    by (simp add: pick_checkout_line_round_robin_def u)
qed


lemma store_cashier_express_eq:
  "store_cashier_express =
     \<lparr>lines = [CheckoutLine 0 ''cashier'', CheckoutLine 1 ''express''],
      last_line_id = 1, total_lines = 2\<rparr>"
  unfolding store_cashier_express_def by code_simp

text \<open>
  C10. A newly built store has its cursor \<open>last_line_id\<close> at the total number of lines
  minus one, which is the highest line id, the ids being the positions. The first
  round-robin selection therefore looks at line 0 first, and returns it when it is
  applicable, leaving the cursor at 0.
\<close>

theorem fresh_store_cursor:
  "last_line_id (GroceryStore lc) = total_lines (GroceryStore lc) - 1 \<and>
   total_lines (GroceryStore lc) = int (length (lines (GroceryStore lc))) \<and>
   (\<forall>i<length (lines (GroceryStore lc)). lid (lines (GroceryStore lc) ! i) = int i) \<and>
   (lines (GroceryStore lc) \<noteq> [] \<longrightarrow>
      (last_line_id (GroceryStore lc) + 1) mod total_lines (GroceryStore lc) = 0) \<and>
   (lines (GroceryStore lc) \<noteq> [] \<and> applicable c (lines (GroceryStore lc) ! 0) \<longrightarrow>
      pick_checkout_line_round_robin c (GroceryStore lc) =
        Inr (0, (GroceryStore lc)\<lparr>last_line_id := 0\<rparr>))"
proof -
  let ?s = "GroceryStore lc"
  note f = GroceryStore_fresh[of lc]
  from f have ids: "\<forall>i<length (lines ?s). lid (lines ?s ! i) = int i"
    by (simp add: fresh_lines_def)
  from f have z: "lines ?s \<noteq> [] \<longrightarrow> (last_line_id ?s + 1) mod total_lines ?s = 0" by simp
  have "pick_checkout_line_round_robin c ?s = Inr (0, ?s\<lparr>last_line_id := 0\<rparr>)"
    if ne: "lines ?s \<noteq> []" and ap: "applicable c (lines ?s ! 0)"
  proof -
    from z ne have k: "(last_line_id ?s + 1) mod total_lines ?s = 0" by simp
    from f have tl: "total_lines ?s = int (length (lines ?s))" by simp
    from ids ne have "lid (lines ?s ! 0) = 0" by simp
    with round_robin_next[OF tl ne] ap k show ?thesis by simp
  qed
  with f ids z show ?thesis by simp
qed

text \<open>The instance of C10 on the store of one cashier and one express line.\<close>

theorem fresh_store_cursor_witness:
  "lines store_cashier_express \<noteq> [] \<and>
   applicable (Customer 0 3) (lines store_cashier_express ! 0) \<and>
   last_line_id store_cashier_express = 1 \<and> total_lines store_cashier_express = 2 \<and>
   pick_checkout_line_round_robin (Customer 0 3) store_cashier_express =
     Inr (0, store_cashier_express\<lparr>last_line_id := 0\<rparr>)"
  using fresh_store_cursor [of "[(''express'', 1), (''cashier'', 1)]" "Customer 0 3"]
  unfolding store_cashier_express_def [symmetric]
  by (simp add: store_cashier_express_eq applicable_def CheckoutLine_def Customer_def)


subsection \<open>The statistics query\<close>

lemma raw_times_length:
  "raw_times h crit acc cs = Inr raw \<Longrightarrow> length raw = length acc + length cs"
  by (induction cs arbitrary: acc) (auto split: sum.splits if_splits)

lemma scan_lines_no_served:
  "\<forall>l\<in>set ls. served l = [] \<Longrightarrow> scan_lines h ids fb st en acc ls = Inr acc"
  by (induction ls arbitrary: acc) auto

text \<open>
  C9. A statistics query that retains no customer does not return a summary with count
  zero: \<open>min\<close> of the empty array raises. Whenever the query returns, the count is
  positive; when the scan of the served customers retains none, in particular when no
  line has served anybody, the query ends in the error of the empty reduction.
\<close>

theorem empty_selection_raises:
  "(query_statistics np_mean np_std sim criterion st en ids fb =
      Inr ((n, sm, mn, mx, mean, sd), raw) \<longrightarrow>
      0 < n \<and> raw \<noteq> []) \<and>
   (finished sim \<and>
    scan_lines (customers (world sim)) ids fb (case st of None \<Rightarrow> 0 | Some t \<Rightarrow> t) en []
      (lines (store (world sim))) = Inr [] \<longrightarrow>
      query_statistics np_mean np_std sim criterion st en ids fb = Inl EmptyReduction) \<and>
   (finished sim \<and> (\<forall>l\<in>set (lines (store (world sim))). served l = []) \<longrightarrow>
      query_statistics np_mean np_std sim criterion st en ids fb = Inl EmptyReduction)"
  (is "?A \<and> ?B \<and> ?C")
proof -
  have A: ?A
  proof
    assume q: "query_statistics np_mean np_std sim criterion st en ids fb =
      Inr ((n, sm, mn, mx, mean, sd), raw)"
    then obtain cs where
      "raw_times (customers (world sim)) criterion [] cs = Inr raw" and n: "n = int (length cs)"
      and "np_min raw = Inr mn"
      by (auto simp: query_statistics_def Let_def split: if_splits sum.splits)
    then have "length raw = length cs" "raw \<noteq> []"
      by (auto dest: raw_times_length simp: np_min_def)
    with n show "0 < n \<and> raw \<noteq> []" by auto
  qed
  have B: ?B
    by (simp add: query_statistics_def np_min_def)
  have C: ?C
    by (simp add: query_statistics_def np_min_def scan_lines_no_served)
  from A B C show ?thesis by (intro conjI)
qed

text \<open>The instance of C9: a window that starts after every join time.\<close>

theorem empty_selection_raises_witness:
  "finished served_simulator \<and>
   scan_lines (customers (world served_simulator)) None ''join'' 100 None []
      (lines (store (world served_simulator))) = Inr [] \<and>
   query_statistics no_float no_float served_simulator ''wait'' (Some 100) None None ''join'' =
     Inl EmptyReduction"
  using empty_selection_raises [where np_mean = no_float and np_std = no_float
      and sim = served_simulator and criterion = "''wait''" and st = "Some 100" and en = None
      and ids = None and fb = "''join''"]
  by (simp add: served_simulator_def deref_def)







lemma foldl_add_sum_list: "foldl (+) a xs = a + sum_list (xs :: 'a::comm_monoid_add list)"
  by (induction xs arbitrary: a) (simp_all add: add.assoc)









section \<open>The policies and the engine\<close>

subsection \<open>Every policy returns an applicable line\<close>

lemma pure_random_applicable:
  assumes "pick_checkout_line_pure_random r c s = Inr k"
  shows "k < length (lines s) \<and> applicable c (lines s ! k)"
proof -
  let ?av = "filter (\<lambda>i. applicable c (lines s ! i)) [0..<length (lines s)]"
  from assms have ne: "?av \<noteq> []" and k: "k = ?av ! (r mod length ?av)"
    by (auto simp: pick_checkout_line_pure_random_def Let_def randint_def split: if_splits)
  from ne have "r mod length ?av < length ?av" by simp
  then have "?av ! (r mod length ?av) \<in> set ?av" by (rule nth_mem)
  with k have "k \<in> set ?av" by simp
  then show ?thesis by simp
qed

lemma pick_line_applicable:
  assumes "pick_line u c w = Inr (k, w')"
  shows "k < length (lines (store w)) \<and> applicable c (lines (store w) ! k) \<and>
     lines (store w') = lines (store w) \<and> customers w' = customers w"
proof (cases "pick_checkout_line u")
  case PureRandom
  with assms obtain k0 where
    "pick_checkout_line_pure_random (rng w 0) c (store w) = Inr k0" "k = k0"
    "w' = w\<lparr>rng := \<lambda>n. rng w (Suc n)\<rparr>"
    by (auto simp: pick_line_def split: sum.splits)
  with pure_random_applicable[of "rng w 0" c "store w" k] show ?thesis by simp
next
  case LeastPerson
  with assms have "pick_least (\<lambda>l. Inr (get_num_customers l)) c (store w) = Inr k" "w' = w"
    by (auto simp: pick_line_def pick_checkout_line_least_person_def split: sum.splits)
  with pick_least_sound[of _ c "store w" k] show ?thesis by simp
next
  case LeastItem
  with assms have "pick_least (get_num_items (customers w)) c (store w) = Inr k" "w' = w"
    by (auto simp: pick_line_def pick_checkout_line_least_item_def split: sum.splits)
  with pick_least_sound[of _ c "store w" k] show ?thesis by simp
next
  case LeastTime
  with assms have "pick_least (\<lambda>l. get_queue_time (get_checkout_time u) (customers w) l
      (count_first u)) c (store w) = Inr k" "w' = w"
    by (auto simp: pick_line_def pick_checkout_line_least_time_def split: sum.splits)
  with pick_least_sound[of _ c "store w" k] show ?thesis by simp
next
  case RoundRobin
  with assms obtain s' where
    "pick_checkout_line_round_robin c (store w) = Inr (k, s')" "w' = w\<lparr>store := s'\<rparr>"
    by (auto simp: pick_line_def split: sum.splits)
  with round_robin_scan[of c "store w" k s'] show ?thesis by simp
qed

subsection \<open>Which errors the policies can end in\<close>

lemma least_loop_error:
  "least_loop m c ls is best = Inl e \<Longrightarrow> \<exists>l. m l = Inl e"
  by (induction "is" arbitrary: best) (auto split: if_splits option.splits sum.splits)

lemma pick_least_error:
  "pick_least m c s = Inl e \<Longrightarrow> e = NoApplicableLine \<or> (\<exists>l. m l = Inl e)"
  by (auto simp: pick_least_def split: sum.splits option.splits dest: least_loop_error)

lemma sum_items_error: "sum_items h a q = Inl e \<Longrightarrow> e = DanglingReference"
  by (induction q arbitrary: a) (auto simp: deref_def split: if_splits sum.splits)

lemma sum_times_error:
  "sum_times gct h l a q = Inl e \<Longrightarrow> e = DanglingReference \<or> (\<exists>cu. gct cu l = Inl e)"
  by (induction q arbitrary: a) (auto simp: deref_def split: if_splits sum.splits)

lemma rr_scan_error: "rr_scan c s offs = Inl e \<Longrightarrow> e = IndexError"
  by (induction offs) (auto simp: list_index_def Let_def split: if_splits sum.splits)

lemma pick_line_error:
  assumes "pick_line u c w = Inl e"
  shows "e = NoApplicableLine \<or> e = DanglingReference \<or> e = IndexError \<or>
     (\<exists>cu l. get_checkout_time u cu l = Inl e)"
proof (cases "pick_checkout_line u")
  case PureRandom
  with assms show ?thesis
    by (auto simp: pick_line_def pick_checkout_line_pure_random_def Let_def
        split: sum.splits if_splits)
next
  case LeastPerson
  with assms have "pick_least (\<lambda>l. Inr (get_num_customers l)) c (store w) = Inl e"
    by (auto simp: pick_line_def pick_checkout_line_least_person_def split: sum.splits)
  from pick_least_error[OF this] show ?thesis by auto
next
  case LeastItem
  with assms have "pick_least (get_num_items (customers w)) c (store w) = Inl e"
    by (auto simp: pick_line_def pick_checkout_line_least_item_def split: sum.splits)
  from pick_least_error[OF this] show ?thesis
    by (auto simp: get_num_items_def dest: sum_items_error)
next
  case LeastTime
  with assms have "pick_least (\<lambda>l. get_queue_time (get_checkout_time u) (customers w) l
      (count_first u)) c (store w) = Inl e"
    by (auto simp: pick_line_def pick_checkout_line_least_time_def split: sum.splits)
  from pick_least_error[OF this] show ?thesis
    by (auto simp: get_queue_time_def split: if_splits dest!: sum_times_error)
next
  case RoundRobin
  with assms have "pick_checkout_line_round_robin c (store w) = Inl e"
    by (auto simp: pick_line_def split: sum.splits)
  then show ?thesis
    by (auto simp: pick_checkout_line_round_robin_def split: sum.splits option.splits
        dest: rr_scan_error)
qed

subsection \<open>What the events do\<close>

lemma join_do_Inr:
  assumes "join_do u t c w = Inr (evs, w')"
  shows "\<exists>cu k w2. deref (customers w) c = Inr cu \<and>
     pick_line u (cu\<lparr>join_timestamp := Some t\<rparr>)
       (w\<lparr>customers := (customers w)[c := cu\<lparr>join_timestamp := Some t\<rparr>]\<rparr>) = Inr (k, w2) \<and>
     \<not> closed (lines (store w2) ! k) \<and>
     w' = set_line w2 k ((lines (store w2) ! k)\<lparr>queue := queue (lines (store w2) ! k) @ [c]\<rparr>)"
proof -
  from assms obtain cu where cu: "deref (customers w) c = Inr cu"
    by (auto simp: join_do_def split: sum.splits)
  then have c: "c < length (customers w)" by (auto simp: deref_def split: if_splits)
  let ?w1 = "w\<lparr>customers := (customers w)[c := cu\<lparr>join_timestamp := Some t\<rparr>]\<rparr>"
  have e: "customers ?w1 ! c = cu\<lparr>join_timestamp := Some t\<rparr>" using c by simp
  from assms cu obtain k w2 where p: "pick_line u (customers ?w1 ! c) ?w1 = Inr (k, w2)"
    by (auto simp: join_do_def Let_def split: sum.splits)
  from assms cu p have q: "\<not> closed (lines (store w2) ! k)"
    "w' = set_line w2 k ((lines (store w2) ! k)\<lparr>queue := queue (lines (store w2) ! k) @ [c]\<rparr>)"
    by (auto simp: join_do_def Let_def queue_new_customer_def split: sum.splits if_splits)
  from cu p q show ?thesis unfolding e by blast
qed

lemma join_do_error:
  assumes "join_do u t c w = Inl e"
  shows "e = NoApplicableLine \<or> e = DanglingReference \<or> e = IndexError \<or>
     (\<exists>cu l. get_checkout_time u cu l = Inl e)"
proof (cases "deref (customers w) c")
  case (Inl e')
  with assms show ?thesis by (auto simp: join_do_def deref_def split: if_splits)
next
  case (Inr cu)
  let ?w1 = "w\<lparr>customers := (customers w)[c := cu\<lparr>join_timestamp := Some t\<rparr>]\<rparr>"
  show ?thesis
  proof (cases "pick_line u (customers ?w1 ! c) ?w1")
    case (Inl e')
    with assms Inr have "e = e'" by (simp add: join_do_def Let_def)
    with pick_line_error[OF Inl] show ?thesis by simp
  next
    case pr: (Inr kw)
    obtain k w2 where kw: "kw = (k, w2)" by (cases kw)
    from pick_line_applicable[OF pr[unfolded kw]]
    have "applicable (customers ?w1 ! c) (lines (store ?w1) ! k)"
      "lines (store w2) = lines (store ?w1)" by simp_all
    then have "\<not> closed (lines (store w2) ! k)" by (simp add: applicable_def)
    with assms Inr pr kw show ?thesis
      by (simp add: join_do_def Let_def queue_new_customer_def split: if_splits)
  qed
qed

lemma begin_do_Inr:
  "begin_do u t c l w = Inr (evs, w') \<Longrightarrow>
   c < length (customers w) \<and>
   w' = w\<lparr>customers := (customers w)[c := (customers w ! c)\<lparr>begin_timestamp := Some t\<rparr>]\<rparr>"
  by (auto simp: begin_do_def deref_def Let_def split: if_splits sum.splits)

lemma begin_do_error:
  "begin_do u t c l w = Inl e \<Longrightarrow>
   e = DanglingReference \<or> (\<exists>cu l. get_checkout_time u cu l = Inl e)"
  by (auto simp: begin_do_def deref_def Let_def split: if_splits sum.splits)

lemma finish_do_Inr:
  "finish_do t c l w = Inr (evs, w') \<Longrightarrow>
   c < length (customers w) \<and> l < length (lines (store w)) \<and>
   (\<exists>hd_c rest. queue (lines (store w) ! l) = hd_c # rest \<and>
      w' = w\<lparr>customers := (customers w)[c := (customers w ! c)\<lparr>finish_timestamp := Some t\<rparr>],
             store := (store w)\<lparr>lines := (lines (store w))
               [l := (lines (store w) ! l)\<lparr>queue := rest,
                      served := served (lines (store w) ! l) @ [hd_c]\<rparr>]\<rparr>\<rparr>)"
  by (auto simp: finish_do_def deref_def Let_def set_line_def
      split: if_splits sum.splits list.splits)

lemma finish_do_error:
  "finish_do t c l w = Inl e \<Longrightarrow>
   e = DanglingReference \<or> e = QueueGetBlocks \<or> (\<exists>i. e = EmptyLine i)"
  by (auto simp: finish_do_def deref_def Let_def serve_next_customer_def
      split: if_splits sum.splits list.splits)

lemma open_close_do_Inr:
  "open_do l w = Inr (evs, w') \<Longrightarrow>
     l < length (lines (store w)) \<and> w' = set_line w l (open_line (lines (store w) ! l))"
  "close_do l w = Inr (evs, w') \<Longrightarrow>
     l < length (lines (store w)) \<and> w' = set_line w l (close_line (lines (store w) ! l))"
  by (auto simp: open_do_def close_do_def deref_def split: if_splits)

lemma open_close_do_error:
  "open_do l w = Inl e \<Longrightarrow> e = DanglingReference"
  "close_do l w = Inl e \<Longrightarrow> e = DanglingReference"
  by (auto simp: open_do_def close_do_def deref_def split: if_splits)

lemma do_event_error:
  assumes "do_event u ev w = Inl e"
  shows "e = NoApplicableLine \<or> e = DanglingReference \<or> e = IndexError \<or>
     e = QueueGetBlocks \<or> (\<exists>i. e = EmptyLine i) \<or> (\<exists>cu l. get_checkout_time u cu l = Inl e)"
proof (cases ev)
  case (JoinCheckoutEvent t c)
  with assms join_do_error[of u t c w e] show ?thesis by auto
next
  case (BeginCheckoutEvent t c l)
  with assms begin_do_error[of u t c l w e] show ?thesis by auto
next
  case (FinishCheckoutEvent t c l)
  with assms finish_do_error[of t c l w e] show ?thesis by auto
next
  case (LineOpenEvent t l)
  with assms open_close_do_error(1)[of l w e] show ?thesis by auto
next
  case (LineCloseEvent t l)
  with assms open_close_do_error(2)[of l w e] show ?thesis by auto
qed

lemma step_error:
  assumes "step u qw = Inl e"
  shows "e = NoApplicableLine \<or> e = DanglingReference \<or> e = IndexError \<or>
     e = QueueGetBlocks \<or> (\<exists>i. e = EmptyLine i) \<or> (\<exists>cu l. get_checkout_time u cu l = Inl e)"
proof (cases "heappop (fst qw)")
  case (Inl e')
  with assms have "e = IndexError"
    by (auto simp: step_def heappop_def Let_def split: if_splits)
  then show ?thesis by simp
next
  case (Inr r)
  obtain ev q1 where r: "r = (ev, q1)" by (cases r)
  with assms Inr have "do_event u ev (snd qw) = Inl e"
    by (auto simp: step_def split: sum.splits)
  from do_event_error[OF this] show ?thesis .
qed

lemma steps_error:
  "steps n u qw = Inl e \<Longrightarrow>
   e = NoApplicableLine \<or> e = DanglingReference \<or> e = IndexError \<or>
     e = QueueGetBlocks \<or> (\<exists>i. e = EmptyLine i) \<or> (\<exists>cu l. get_checkout_time u cu l = Inl e)"
proof (induction n arbitrary: qw)
  case 0
  then show ?case by simp
next
  case (Suc n)
  show ?case
  proof (cases "step u qw")
    case (Inl e')
    with Suc.prems have "e = e'" by (simp split: if_splits)
    with step_error[OF Inl] show ?thesis by simp
  next
    case (Inr qw')
    with Suc.prems have "steps n u qw' = Inl e" by (simp split: if_splits)
    from Suc.IH[OF this] show ?thesis .
  qed
qed

lemma create_events_error:
  "create_events ls idx cid0 cs evs lns = Inl e \<Longrightarrow> \<exists>i. e = ParseError i"
  by (induction lns arbitrary: idx cid0 cs evs)
     (auto split: list.splits option.splits if_splits)

subsection \<open>The express rule is kept by every event\<close>

lemma num_items_join_update:
  "num_items (h[c := (h ! c)\<lparr>join_timestamp := x\<rparr>] ! r) = num_items (h ! r)"
proof (cases "c < length h")
  case True
  then show ?thesis by (cases "r = c") (simp_all add: nth_list_update)
next
  case False
  then show ?thesis by (simp add: list_update_beyond)
qed

lemma num_items_begin_update:
  "num_items (h[c := (h ! c)\<lparr>begin_timestamp := x\<rparr>] ! r) = num_items (h ! r)"
proof (cases "c < length h")
  case True
  then show ?thesis by (cases "r = c") (simp_all add: nth_list_update)
next
  case False
  then show ?thesis by (simp add: list_update_beyond)
qed

lemma num_items_finish_update:
  "num_items (h[c := (h ! c)\<lparr>finish_timestamp := x\<rparr>] ! r) = num_items (h ! r)"
proof (cases "c < length h")
  case True
  then show ?thesis by (cases "r = c") (simp_all add: nth_list_update)
next
  case False
  then show ?thesis by (simp add: list_update_beyond)
qed

lemmas num_items_list_update =
  num_items_join_update num_items_begin_update num_items_finish_update

lemma express_ok_customers:
  assumes "express_ok w" "length h' = length (customers w)"
    "\<forall>r<length (customers w). num_items (h' ! r) = num_items (customers w ! r)"
  shows "express_ok (w\<lparr>customers := h'\<rparr>)"
  using assms by (auto simp: express_ok_def)

lemma express_ok_set_line:
  assumes "express_ok w"
    and "ltype l' = ''express'' \<longrightarrow>
      (\<forall>r\<in>set (queue l') \<union> set (served l').
         r < length (customers w) \<and> num_items (customers w ! r) \<le> 10)"
  shows "express_ok (set_line w k l')"
proof -
  have "set ((lines (store w))[k := l']) \<subseteq> insert l' (set (lines (store w)))"
    by (rule set_update_subset_insert)
  with assms show ?thesis
    by (auto simp: express_ok_def set_line_def)
qed

lemma express_ok_line:
  "express_ok w \<Longrightarrow> k < length (lines (store w)) \<Longrightarrow> ltype (lines (store w) ! k) = ''express'' \<Longrightarrow>
   r \<in> set (queue (lines (store w) ! k)) \<union> set (served (lines (store w) ! k)) \<Longrightarrow>
   r < length (customers w) \<and> num_items (customers w ! r) \<le> 10"
  unfolding express_ok_def using nth_mem by blast

lemma express_ok_rng_store:
  "express_ok w \<Longrightarrow> lines (store w') = lines (store w) \<Longrightarrow> customers w' = customers w \<Longrightarrow>
   express_ok w'"
  by (simp add: express_ok_def)

lemma join_do_enqueues:
  assumes "join_do u t c w = Inr (evs, w')"
  shows "\<exists>k<length (lines (store w)).
     lines (store w') = (lines (store w))
       [k := (lines (store w) ! k)\<lparr>queue := queue (lines (store w) ! k) @ [c]\<rparr>] \<and>
     customers w' = (customers w)[c := (customers w ! c)\<lparr>join_timestamp := Some t\<rparr>] \<and>
     c < length (customers w) \<and>
     \<not> closed (lines (store w) ! k) \<and>
     (ltype (lines (store w) ! k) = ''express'' \<longrightarrow> num_items (customers w ! c) \<le> 10)"
proof -
  from join_do_Inr[OF assms] obtain cu k w2 where
    cu: "deref (customers w) c = Inr cu" and
    p: "pick_line u (cu\<lparr>join_timestamp := Some t\<rparr>)
       (w\<lparr>customers := (customers w)[c := cu\<lparr>join_timestamp := Some t\<rparr>]\<rparr>) = Inr (k, w2)" and
    w': "w' = set_line w2 k ((lines (store w2) ! k)\<lparr>queue := queue (lines (store w2) ! k) @ [c]\<rparr>)"
    by blast
  from cu have c: "c < length (customers w)" "cu = customers w ! c"
    by (auto simp: deref_def split: if_splits)
  from pick_line_applicable[OF p] have
    k: "k < length (lines (store w))" and
    ap: "applicable (cu\<lparr>join_timestamp := Some t\<rparr>) (lines (store w) ! k)" and
    ls: "lines (store w2) = lines (store w)" and
    cs: "customers w2 = (customers w)[c := cu\<lparr>join_timestamp := Some t\<rparr>]"
    by simp_all
  from ap have "\<not> closed (lines (store w) ! k)"
    "ltype (lines (store w) ! k) = ''express'' \<longrightarrow> num_items (customers w ! c) \<le> 10"
    by (auto simp: applicable_def c(2))
  with k c w' ls cs show ?thesis
    by (intro exI[of _ k]) (simp add: set_line_def)
qed

lemma join_do_express_ok:
  assumes "join_do u t c w = Inr (evs, w')" "express_ok w"
  shows "express_ok w'"
proof -
  from join_do_enqueues[OF assms(1)] obtain k where
    k: "k < length (lines (store w))" and
    ls: "lines (store w') = (lines (store w))
       [k := (lines (store w) ! k)\<lparr>queue := queue (lines (store w) ! k) @ [c]\<rparr>]" and
    cs: "customers w' = (customers w)[c := (customers w ! c)\<lparr>join_timestamp := Some t\<rparr>]" and
    c: "c < length (customers w)" and
    ex: "ltype (lines (store w) ! k) = ''express'' \<longrightarrow> num_items (customers w ! c) \<le> 10"
    by blast
  let ?l' = "(lines (store w) ! k)\<lparr>queue := queue (lines (store w) ! k) @ [c]\<rparr>"
  have l': "ltype ?l' = ''express'' \<longrightarrow>
      (\<forall>r\<in>set (queue ?l') \<union> set (served ?l').
         r < length (customers w) \<and> num_items (customers w ! r) \<le> 10)"
    using express_ok_line[OF assms(2) k] ex c by auto
  have 1: "express_ok (set_line w k ?l')" by (rule express_ok_set_line[OF assms(2) l'])
  have 2: "express_ok ((set_line w k ?l')\<lparr>customers := customers w'\<rparr>)"
    by (rule express_ok_customers[OF 1]) (auto simp: cs set_line_def num_items_list_update)
  show ?thesis
    by (rule express_ok_rng_store[OF 2]) (simp_all add: ls set_line_def)
qed

lemma begin_do_express_ok:
  assumes "begin_do u t c l w = Inr (evs, w')" "express_ok w"
  shows "express_ok w'"
proof -
  from begin_do_Inr[OF assms(1)] have
    w': "w' = w\<lparr>customers := (customers w)[c := (customers w ! c)\<lparr>begin_timestamp := Some t\<rparr>]\<rparr>"
    by simp
  show ?thesis unfolding w'
    by (rule express_ok_customers[OF assms(2)]) (auto simp: num_items_list_update)
qed

lemma finish_do_express_ok:
  assumes "finish_do t c l w = Inr (evs, w')" "express_ok w"
  shows "express_ok w'"
proof -
  from finish_do_Inr[OF assms(1)] obtain hd_c rest where
    l: "l < length (lines (store w))" and q: "queue (lines (store w) ! l) = hd_c # rest" and
    w': "w' = w\<lparr>customers := (customers w)[c := (customers w ! c)\<lparr>finish_timestamp := Some t\<rparr>],
             store := (store w)\<lparr>lines := (lines (store w))
               [l := (lines (store w) ! l)\<lparr>queue := rest,
                      served := served (lines (store w) ! l) @ [hd_c]\<rparr>]\<rparr>\<rparr>"
    by blast
  let ?l' = "(lines (store w) ! l)\<lparr>queue := rest, served := served (lines (store w) ! l) @ [hd_c]\<rparr>"
  have l': "ltype ?l' = ''express'' \<longrightarrow>
      (\<forall>r\<in>set (queue ?l') \<union> set (served ?l').
         r < length (customers w) \<and> num_items (customers w ! r) \<le> 10)"
    using express_ok_line[OF assms(2) l] q by auto
  have 1: "express_ok (set_line w l ?l')" by (rule express_ok_set_line[OF assms(2) l'])
  have 2: "express_ok ((set_line w l ?l')\<lparr>customers :=
      (customers w)[c := (customers w ! c)\<lparr>finish_timestamp := Some t\<rparr>]\<rparr>)"
    by (rule express_ok_customers[OF 1]) (auto simp: set_line_def num_items_list_update)
  show ?thesis
    by (rule express_ok_rng_store[OF 2]) (simp_all add: w' set_line_def)
qed

lemma open_close_express_ok:
  assumes "express_ok w"
  shows "open_do l w = Inr (evs, w') \<Longrightarrow> express_ok w'"
    and "close_do l w = Inr (evs, w') \<Longrightarrow> express_ok w'"
proof -
  assume "open_do l w = Inr (evs, w')"
  from open_close_do_Inr(1)[OF this] have l: "l < length (lines (store w))"
    and w': "w' = set_line w l (open_line (lines (store w) ! l))" by simp_all
  show "express_ok w'" unfolding w'
    by (rule express_ok_set_line[OF assms])
       (use express_ok_line[OF assms l] in \<open>auto simp: open_line_def\<close>)
next
  assume "close_do l w = Inr (evs, w')"
  from open_close_do_Inr(2)[OF this] have l: "l < length (lines (store w))"
    and w': "w' = set_line w l (close_line (lines (store w) ! l))" by simp_all
  show "express_ok w'" unfolding w'
    by (rule express_ok_set_line[OF assms])
       (use express_ok_line[OF assms l] in \<open>auto simp: close_line_def\<close>)
qed

lemma do_event_express_ok:
  assumes "do_event u ev w = Inr (evs, w')" "express_ok w"
  shows "express_ok w'"
proof (cases ev)
  case (JoinCheckoutEvent t c)
  with assms join_do_express_ok[of u t c w evs w'] show ?thesis by simp
next
  case (BeginCheckoutEvent t c l)
  with assms begin_do_express_ok[of u t c l w evs w'] show ?thesis by simp
next
  case (FinishCheckoutEvent t c l)
  with assms finish_do_express_ok[of t c l w evs w'] show ?thesis by simp
next
  case (LineOpenEvent t l)
  with assms open_close_express_ok(1)[of w l evs w'] show ?thesis by simp
next
  case (LineCloseEvent t l)
  with assms open_close_express_ok(2)[of w l evs w'] show ?thesis by simp
qed

lemma step_express_ok:
  assumes "step u qw = Inr qw'" "express_ok (snd qw)"
  shows "express_ok (snd qw')"
proof -
  from assms(1) obtain ev q1 evs w' where
    "do_event u ev (snd qw) = Inr (evs, w')" "snd qw' = w'"
    by (auto simp: step_def split: sum.splits)
  with do_event_express_ok[OF _ assms(2)] show ?thesis by simp
qed

lemma steps_express_ok:
  "steps n u qw = Inr qw' \<Longrightarrow> express_ok (snd qw) \<Longrightarrow> express_ok (snd qw')"
proof (induction n arbitrary: qw)
  case 0
  then show ?case by simp
next
  case (Suc n)
  show ?case
  proof (cases "fst qw = []")
    case True
    with Suc.prems show ?thesis by simp
  next
    case False
    with Suc.prems(1) obtain qw1 where s: "step u qw = Inr qw1" "steps n u qw1 = Inr qw'"
      by (auto split: sum.splits)
    from Suc.IH[OF s(2) step_express_ok[OF s(1) Suc.prems(2)]] show ?thesis .
  qed
qed

subsection \<open>Eligibility\<close>

text \<open>
  C3. Each of the five policies returns only a line that is not closed and that is not an
  express line unless the customer has at most 10 items. A JoinCheckout event appends
  its customer to the queue of one such line and to no other; hence, along every run of
  the loop, from a world where every customer of an express line has at most 10 items
  every later world is such a world again: no customer with more than 10 items is ever
  enqueued into an express line.
\<close>

theorem policies_respect_eligibility:
  "(pick_checkout_line_pure_random r c s = Inr k \<longrightarrow>
      k < length (lines s) \<and> \<not> closed (lines s ! k) \<and>
      (ltype (lines s ! k) \<noteq> ''express'' \<or> num_items c \<le> 10)) \<and>
   (pick_checkout_line_least_person c s = Inr k \<longrightarrow>
      k < length (lines s) \<and> \<not> closed (lines s ! k) \<and>
      (ltype (lines s ! k) \<noteq> ''express'' \<or> num_items c \<le> 10)) \<and>
   (pick_checkout_line_least_item h c s = Inr k \<longrightarrow>
      k < length (lines s) \<and> \<not> closed (lines s ! k) \<and>
      (ltype (lines s ! k) \<noteq> ''express'' \<or> num_items c \<le> 10)) \<and>
   (pick_checkout_line_least_time gct cf h c s = Inr k \<longrightarrow>
      k < length (lines s) \<and> \<not> closed (lines s ! k) \<and>
      (ltype (lines s ! k) \<noteq> ''express'' \<or> num_items c \<le> 10)) \<and>
   (pick_checkout_line_round_robin c s = Inr (k, s') \<longrightarrow>
      k < length (lines s) \<and> \<not> closed (lines s ! k) \<and>
      (ltype (lines s ! k) \<noteq> ''express'' \<or> num_items c \<le> 10)) \<and>
   (join_do u t cr w = Inr (evs, w') \<longrightarrow>
      (\<exists>k<length (lines (store w)).
         lines (store w') = (lines (store w))
           [k := (lines (store w) ! k)\<lparr>queue := queue (lines (store w) ! k) @ [cr]\<rparr>] \<and>
         \<not> closed (lines (store w) ! k) \<and>
         (ltype (lines (store w) ! k) = ''express'' \<longrightarrow> num_items (customers w ! cr) \<le> 10))) \<and>
   (express_ok (snd qw) \<and> steps n u qw = Inr qw' \<longrightarrow> express_ok (snd qw'))"
  (is "?R \<and> ?P \<and> ?I \<and> ?T \<and> ?RR \<and> ?J \<and> ?S")
proof -
  have R: ?R using pure_random_applicable[of r c s k] by (auto simp: applicable_def)
  have P: ?P
    using pick_least_sound[of "\<lambda>l. Inr (get_num_customers l)" c s k]
    by (auto simp: applicable_def pick_checkout_line_least_person_def)
  have I: ?I
    using pick_least_sound[of "get_num_items h" c s k]
    by (auto simp: applicable_def pick_checkout_line_least_item_def)
  have T: ?T
    using pick_least_sound[of "\<lambda>l. get_queue_time gct h l cf" c s k]
    by (auto simp: applicable_def pick_checkout_line_least_time_def)
  have RR: ?RR using round_robin_scan[of c s k s'] by (auto simp: applicable_def)
  have J: ?J
  proof
    assume "join_do u t cr w = Inr (evs, w')"
    from join_do_enqueues[OF this] show "\<exists>k<length (lines (store w)).
         lines (store w') = (lines (store w))
           [k := (lines (store w) ! k)\<lparr>queue := queue (lines (store w) ! k) @ [cr]\<rparr>] \<and>
         \<not> closed (lines (store w) ! k) \<and>
         (ltype (lines (store w) ! k) = ''express'' \<longrightarrow> num_items (customers w ! cr) \<le> 10)"
      by blast
  qed
  have S: ?S using steps_express_ok[of n u qw qw'] by blast
  from R P I T RR J S show ?thesis by (intro conjI)
qed

lemmas arrival_defs = arrival_world_def example_store_def example_customers_def
  CheckoutLine_def Customer_def

lemma arrival_express_ok: "express_ok arrival_world"
  by (simp add: express_ok_def arrival_defs)

lemma arrival_step:
  "steps 1 (deterministic_utility RoundRobin True) ([JoinCheckoutEvent 7 4], arrival_world) =
     Inr ([], set_line
        (arrival_world\<lparr>customers := (customers arrival_world)
             [4 := (Customer 4 11)\<lparr>join_timestamp := Some 7\<rparr>],
           store := (store arrival_world)\<lparr>last_line_id := 2\<rparr>\<rparr>)
        2 ((CheckoutLine 2 ''self'')\<lparr>queue := [3, 4]\<rparr>))"
  by (simp add: step_def heappop_def Let_def join_do_def deref_def pick_line_def
      pick_checkout_line_round_robin_def upto.simps list_index_def applicable_def
      is_empty_def get_num_customers_def queue_new_customer_def set_line_def
      deterministic_utility_def arrival_defs)

text \<open>
  The instance of C3: a customer with 11 items arrives while the round robin stands
  before the express line; the express line is passed over and the customer joins line 2.
\<close>

theorem policies_respect_eligibility_witness:
  "express_ok arrival_world \<and>
   (\<exists>qw'. steps 1 (deterministic_utility RoundRobin True)
             ([JoinCheckoutEvent 7 4], arrival_world) = Inr qw' \<and>
      express_ok (snd qw') \<and>
      queue (lines (store (snd qw')) ! 1) = [2] \<and>
      queue (lines (store (snd qw')) ! 2) = [3, 4]) \<and>
   num_items (customers arrival_world ! 4) = 11 \<and>
   pick_checkout_line_least_person (Customer 4 11) example_store = Inr 2 \<and>
   ltype (lines example_store ! 2) = ''self'' \<and> ltype (lines example_store ! 1) = ''express''"
proof -
  let ?qw' = "([] :: event list, set_line
        (arrival_world\<lparr>customers := (customers arrival_world)
             [4 := (Customer 4 11)\<lparr>join_timestamp := Some 7\<rparr>],
           store := (store arrival_world)\<lparr>last_line_id := 2\<rparr>\<rparr>)
        2 ((CheckoutLine 2 ''self'')\<lparr>queue := [3, 4]\<rparr>))"
  from policies_respect_eligibility [where qw = "([JoinCheckoutEvent 7 4], arrival_world)"
      and n = 1 and u = "deterministic_utility RoundRobin True" and qw' = ?qw']
    arrival_express_ok arrival_step
  have e: "express_ok (snd ?qw')" by simp
  have q: "queue (lines (store (snd ?qw')) ! 1) = [2]" "queue (lines (store (snd ?qw')) ! 2) = [3, 4]"
    by (simp_all add: set_line_def arrival_defs)
  have p: "pick_checkout_line_least_person (Customer 4 11) example_store = Inr 2"
    by (simp add: pick_checkout_line_least_person_def pick_least_def applicable_def
        get_num_customers_def arrival_defs)
  have o: "num_items (customers arrival_world ! 4) = 11"
    "ltype (lines example_store ! 2) = ''self''" "ltype (lines example_store ! 1) = ''express''"
    by (simp_all add: arrival_defs)
  from arrival_step e q have "\<exists>qw'. steps 1 (deterministic_utility RoundRobin True)
             ([JoinCheckoutEvent 7 4], arrival_world) = Inr qw' \<and>
      express_ok (snd qw') \<and>
      queue (lines (store (snd qw')) ! 1) = [2] \<and>
      queue (lines (store (snd qw')) ! 2) = [3, 4]"
    by (intro exI[of _ ?qw']) simp
  with arrival_express_ok p o show ?thesis by simp
qed

subsection \<open>The closed-line failure\<close>

lemma deterministic_not_closed_error:
  "get_checkout_time_deterministic cu l \<noteq> Inl (ClosedLine i)"
  by (simp add: get_checkout_time_deterministic_def dict_get_def checkout_w_def checkout_b_def)

lemma run_error:
  assumes "run n seed u sim events_str = Some (Inl e)"
  shows "e = SimulatorFinished \<or> (\<exists>i. e = ParseError i) \<or>
     e = NoApplicableLine \<or> e = DanglingReference \<or> e = IndexError \<or>
     e = QueueGetBlocks \<or> (\<exists>i. e = EmptyLine i) \<or> (\<exists>cu l. get_checkout_time u cu l = Inl e)"
proof (cases "finished sim")
  case True
  with assms show ?thesis by (simp add: run_def)
next
  case False
  let ?w0 = "case random_state sim of None \<Rightarrow> world sim | Some r \<Rightarrow> (world sim)\<lparr>rng := seed r\<rparr>"
  show ?thesis
  proof (cases "create_event_list events_str (store ?w0) (customers ?w0)")
    case (Inl e')
    with assms False have "e = e'" by (simp add: run_def Let_def)
    with Inl create_events_error show ?thesis
      unfolding create_event_list_def by blast
  next
    case (Inr r)
    obtain evs cs where r: "r = (evs, cs)" by (cases r)
    from assms False Inr r have
      "run_loop n u (foldl heappush (events sim) evs, ?w0\<lparr>customers := cs\<rparr>) = Some (Inl e)"
      by (auto simp: run_def Let_def split: option.splits sum.splits)
    then have "steps n u (foldl heappush (events sim) evs, ?w0\<lparr>customers := cs\<rparr>) = Inl e"
      by (auto simp: run_loop_def split: sum.splits if_splits)
    from steps_error[OF this] show ?thesis by blast
  qed
qed

text \<open>
  C8. With a duration model that does not itself raise the closed-line failure, that
  failure is out of reach of the engine: neither a JoinCheckout event, nor a turn of
  the loop, nor any number of turns, nor \<open>run\<close> ends in it. A JoinCheckout event
  enqueues its customer only into the line the installed policy has just returned, and
  that line is not closed. The failure belongs to \<open>queue_new_customer\<close> alone, which
  raises it exactly on a closed line.
\<close>

theorem closed_line_error_unreachable:
  assumes "\<And>cu l j. get_checkout_time u cu l \<noteq> Inl (ClosedLine j)"
  shows "join_do u t c w \<noteq> Inl (ClosedLine i) \<and>
     step u qw \<noteq> Inl (ClosedLine i) \<and>
     steps n u qw \<noteq> Inl (ClosedLine i) \<and>
     run_loop n u qw \<noteq> Some (Inl (ClosedLine i)) \<and>
     run n seed u sim events_str \<noteq> Some (Inl (ClosedLine i)) \<and>
     (join_do u t c w = Inr (evs, w') \<longrightarrow>
        (\<exists>cu k w2. deref (customers w) c = Inr cu \<and>
           pick_line u (cu\<lparr>join_timestamp := Some t\<rparr>)
             (w\<lparr>customers := (customers w)[c := cu\<lparr>join_timestamp := Some t\<rparr>]\<rparr>) = Inr (k, w2) \<and>
           \<not> closed (lines (store w2) ! k) \<and>
           w' = set_line w2 k
                  ((lines (store w2) ! k)\<lparr>queue := queue (lines (store w2) ! k) @ [c]\<rparr>))) \<and>
     (closed l \<longrightarrow> queue_new_customer l c = Inl (ClosedLine (lid l))) \<and>
     (queue_new_customer l c = Inl e \<longrightarrow> closed l \<and> e = ClosedLine (lid l))"
proof -
  have 1: "join_do u t c w \<noteq> Inl (ClosedLine i)"
    using join_do_error[of u t c w "ClosedLine i"] assms by auto
  have 2: "step u qw \<noteq> Inl (ClosedLine i)"
    using step_error[of u qw "ClosedLine i"] assms by auto
  have 3: "steps n u qw \<noteq> Inl (ClosedLine i)"
    using steps_error[of n u qw "ClosedLine i"] assms by auto
  have 4: "run_loop n u qw \<noteq> Some (Inl (ClosedLine i))"
    using 3 by (auto simp: run_loop_def split: sum.splits if_splits)
  have 5: "run n seed u sim events_str \<noteq> Some (Inl (ClosedLine i))"
    using run_error[of n seed u sim events_str "ClosedLine i"] assms by auto
  have 6: "join_do u t c w = Inr (evs, w') \<longrightarrow>
        (\<exists>cu k w2. deref (customers w) c = Inr cu \<and>
           pick_line u (cu\<lparr>join_timestamp := Some t\<rparr>)
             (w\<lparr>customers := (customers w)[c := cu\<lparr>join_timestamp := Some t\<rparr>]\<rparr>) = Inr (k, w2) \<and>
           \<not> closed (lines (store w2) ! k) \<and>
           w' = set_line w2 k
                  ((lines (store w2) ! k)\<lparr>queue := queue (lines (store w2) ! k) @ [c]\<rparr>))"
    using join_do_Inr[of u t c w evs w'] by blast
  have 7: "closed l \<longrightarrow> queue_new_customer l c = Inl (ClosedLine (lid l))"
    by (simp add: queue_new_customer_def)
  have 8: "queue_new_customer l c = Inl e \<longrightarrow> closed l \<and> e = ClosedLine (lid l)"
    by (auto simp: queue_new_customer_def split: if_splits)
  from 1 2 3 4 5 6 7 8 show ?thesis by (intro conjI)
qed

lemma push_join_close:
  "heappush (heappush [] (JoinCheckoutEvent 7 4)) (LineCloseEvent 1 2) =
     [LineCloseEvent 1 2, JoinCheckoutEvent 7 4]"
  by code_simp

lemma pop_close:
  "heappop [LineCloseEvent 1 2, JoinCheckoutEvent 7 4] =
     Inr (LineCloseEvent 1 2, [JoinCheckoutEvent 7 4])"
  by code_simp

lemma pop_join:
  "heappop [JoinCheckoutEvent 7 4] = Inr (JoinCheckoutEvent 7 4, [])"
  by code_simp

lemma steps_unfold:
  "steps 1 u qw = (if fst qw = [] then Inr qw else step u qw)"
  "steps 2 u qw =
     (if fst qw = [] then Inr qw
      else (case step u qw of Inl e \<Rightarrow> Inl e | Inr qw' \<Rightarrow> steps 1 u qw'))"
proof -
  show 1: "steps 1 u qw = (if fst qw = [] then Inr qw else step u qw)"
    by (simp add: One_nat_def[symmetric] del: One_nat_def split: sum.splits)
       (metis One_nat_def steps.simps sum.case sum.exhaust)
  show "steps 2 u qw =
     (if fst qw = [] then Inr qw
      else (case step u qw of Inl e \<Rightarrow> Inl e | Inr qw' \<Rightarrow> steps 1 u qw'))"
    unfolding numeral_2_eq_2 One_nat_def by simp
qed

lemma closing_steps:
  "steps 2 (deterministic_utility RoundRobin True)
     (foldl heappush [] [JoinCheckoutEvent 7 4, LineCloseEvent 1 2], arrival_world) =
   Inr ([], set_line
      (set_line
        (arrival_world\<lparr>customers := (customers arrival_world)
             [4 := (Customer 4 11)\<lparr>join_timestamp := Some 7\<rparr>]\<rparr>)
        2 ((CheckoutLine 2 ''self'')\<lparr>queue := [3], closed := True\<rparr>))
      0 ((CheckoutLine 0 ''cashier'')\<lparr>queue := [0, 1, 4]\<rparr>))"
proof -
  let ?u = "deterministic_utility RoundRobin True"
  let ?w1 = "set_line arrival_world 2 ((CheckoutLine 2 ''self'')\<lparr>queue := [3], closed := True\<rparr>)"
  have s1: "step ?u ([LineCloseEvent 1 2, JoinCheckoutEvent 7 4], arrival_world) =
      Inr ([JoinCheckoutEvent 7 4], ?w1)"
    by (simp add: step_def pop_close close_do_def close_line_def deref_def set_line_def
        arrival_defs)
  have s2: "step ?u ([JoinCheckoutEvent 7 4], ?w1) =
      Inr ([], set_line
      (set_line
        (arrival_world\<lparr>customers := (customers arrival_world)
             [4 := (Customer 4 11)\<lparr>join_timestamp := Some 7\<rparr>]\<rparr>)
        2 ((CheckoutLine 2 ''self'')\<lparr>queue := [3], closed := True\<rparr>))
      0 ((CheckoutLine 0 ''cashier'')\<lparr>queue := [0, 1, 4]\<rparr>))"
    by (simp add: step_def pop_join Let_def join_do_def deref_def pick_line_def
      pick_checkout_line_round_robin_def upto.simps list_index_def applicable_def
      is_empty_def get_num_customers_def queue_new_customer_def set_line_def
      deterministic_utility_def arrival_defs)
  show ?thesis
    by (simp add: steps_unfold push_join_close s1 s2)
qed

text \<open>
  The instance of C8: line 2 closes at time 1; the customer arriving at time 7 under the
  round robin is passed on to line 0, and enqueueing into the closed line directly fails.
\<close>

theorem closed_line_error_unreachable_witness:
  "steps 2 (deterministic_utility RoundRobin True)
     (foldl heappush [] [JoinCheckoutEvent 7 4, LineCloseEvent 1 2], arrival_world) \<noteq>
     Inl (ClosedLine 2) \<and>
   (\<exists>w'. steps 2 (deterministic_utility RoundRobin True)
      (foldl heappush [] [JoinCheckoutEvent 7 4, LineCloseEvent 1 2], arrival_world) =
        Inr ([], w') \<and>
      closed (lines (store w') ! 2) \<and> queue (lines (store w') ! 2) = [3] \<and>
      queue (lines (store w') ! 0) = [0, 1, 4]) \<and>
   closed (close_line (CheckoutLine 2 ''self'')) \<and>
   queue_new_customer (close_line (CheckoutLine 2 ''self'')) 4 = Inl (ClosedLine 2)"
proof -
  let ?u = "deterministic_utility RoundRobin True"
  let ?qw = "(foldl heappush [] [JoinCheckoutEvent 7 4, LineCloseEvent 1 2], arrival_world)"
  let ?l = "close_line (CheckoutLine 2 ''self'')"
  have g: "get_checkout_time ?u cu l \<noteq> Inl (ClosedLine j)" for cu l j
    by (simp add: deterministic_utility_def deterministic_not_closed_error)
  note T0 = closed_line_error_unreachable [OF g, where i = 2 and n = 2 and qw = ?qw
      and l = ?l and c = 4]
  note a = T0 [THEN conjunct2, THEN conjunct2, THEN conjunct1]
  note q = T0 [THEN conjunct2, THEN conjunct2, THEN conjunct2, THEN conjunct2,
      THEN conjunct2, THEN conjunct2, THEN conjunct1]
  have c: "closed ?l" "lid ?l = 2"
    by (simp_all add: close_line_def CheckoutLine_def)
  from q c have b: "queue_new_customer ?l 4 = Inl (ClosedLine 2)"
    by simp
  have e: "\<exists>w'. steps 2 ?u ?qw = Inr ([], w') \<and>
      closed (lines (store w') ! 2) \<and> queue (lines (store w') ! 2) = [3] \<and>
      queue (lines (store w') ! 0) = [0, 1, 4]"
    unfolding closing_steps
    by (intro exI conjI, rule refl) (simp_all add: set_line_def arrival_defs)
  from a e c(1) b show ?thesis by (intro conjI)
qed

subsection \<open>Round robin: what is returned, and when\<close>











end
